theory Spec2Isabelle
  imports Main "HOL-Library.Multiset"
begin

section \<open>Data model (types.ts)\<close>

text \<open>
  The flashcard types of \<^verbatim>\<open>types.ts\<close>. The content provider returns
  \<^verbatim>\<open>Omit<FlashCard, 'id' | 'box' | 'nextReview' | 'createdAt'>\<close>, the three text fields;
  a \<^verbatim>\<open>FlashCard\<close> extends it with the identity and the scheduling fields. JavaScript
  numbers that hold boxes and millisecond timestamps are integers far below \<open>2^53\<close>, where
  double arithmetic is exact, so they are modelled as \<open>int\<close>. The field \<^verbatim>\<open>id\<close> is
  named \<open>id_card\<close>, since \<open>id\<close> is the identity function of HOL, and the field
  \<^verbatim>\<open>back\<close> is named \<open>back_card\<close>, since \<open>back\<close> is a command of Isabelle.
\<close>

record GeneratedCard =
  front :: string
  back_card :: string
  topic :: string

record FlashCard = GeneratedCard +
  id_card :: string
  box :: int
  nextReview :: int
  createdAt :: int

record FlashCardDeckStats =
  totalCards :: nat
  dueCards :: nat
  masteredCards :: nat

section \<open>The scheduler (FlashCardManager, handleReviewResult, lines 86-118)\<close>

text \<open>
  \<^verbatim>\<open>const intervals = [1, 3, 7, 14, 30, 90];\<close>
\<close>

definition intervals :: "int list" where
  "intervals = [1, 3, 7, 14, 30, 90]"

text \<open>
  \<^verbatim>\<open>xs[i]\<close> in JavaScript: an index outside the array reads \<^verbatim>\<open>undefined\<close>, here
  \<open>None\<close>.
\<close>

definition js_index :: "'a list \<Rightarrow> int \<Rightarrow> 'a option" where
  "js_index xs i = (if 0 \<le> i \<and> i < int (length xs) then Some (xs ! nat i) else None)"

text \<open>
  \<^verbatim>\<open>v || d\<close> on a number that may be undefined: \<^verbatim>\<open>undefined\<close> and \<^verbatim>\<open>0\<close> are
  falsy and give \<open>d\<close>.
\<close>

definition js_or :: "int option \<Rightarrow> int \<Rightarrow> int" where
  "js_or v d = (case v of None \<Rightarrow> d | Some x \<Rightarrow> if x = 0 then d else x)"

text \<open>
  The computation of \<^verbatim>\<open>newBox\<close> and \<^verbatim>\<open>nextReview\<close> inside
  \<^verbatim>\<open>handleReviewResult\<close>, with the reading of \<^verbatim>\<open>Date.now()\<close> as the parameter
  \<open>now\<close>:
  \<^verbatim>\<open>
    if (success) {
      newBox = Math.min(currentCard.box + 1, intervals.length);
      const daysToAdd = intervals[newBox - 1] || 1;
      nextReview = Date.now() + (daysToAdd * 24 * 60 * 60 * 1000);
    } else {
      newBox = 0;
      nextReview = Date.now() + (24 * 60 * 60 * 1000);
    }
  \<close>
  The result is the pair \<open>(newBox, nextReview)\<close>.
\<close>

definition daysToAdd :: "int \<Rightarrow> int" where
  "daysToAdd newBox = js_or (js_index intervals (newBox - 1)) 1"

definition scheduler :: "int \<Rightarrow> int \<Rightarrow> bool \<Rightarrow> int \<times> int" where
  "scheduler now currentBox success =
     (if success then
        (let newBox = min (currentBox + 1) (int (length intervals))
         in (newBox, now + daysToAdd newBox * 24 * 60 * 60 * 1000))
      else (0, now + 24 * 60 * 60 * 1000))"

section \<open>The flashcard manager: state (FlashCardManager, lines 14-23)\<close>

text \<open>
  The component's state variables (the text of the topic field as UTF-16 code units,
  since it is trimmed), and the browser's local storage under the key
  \<^verbatim>\<open>uk_life_flashcards\<close>: \<open>localStorage\<close> is the sequence of card arrays written by
  \<^verbatim>\<open>localStorage.setItem\<close>, newest first, so the stored value is its head and every
  persistence call adds one entry. An empty sequence is "no item under the key".
  \<^verbatim>\<open>JSON.parse (JSON.stringify cards)\<close> gives back the cards, so the arrays are kept as
  they are.
\<close>

record manager_state =
  cards :: "FlashCard list"
  isReviewing :: bool
  isGenerating :: bool
  showGenerateModal :: bool
  topicInput :: "nat list"
  reviewQueue :: "FlashCard list"
  currentCardIndex :: nat
  isFlipped :: bool
  localStorage :: "FlashCard list list"

text \<open>
  Reading a field of \<^verbatim>\<open>undefined\<close> throws a \<^verbatim>\<open>TypeError\<close>.
\<close>

datatype error = TypeError

text \<open>
  The state at the first render, before the mount effect runs, over what local storage
  holds.
\<close>

definition initial :: "FlashCard list list \<Rightarrow> manager_state" where
  "initial stored =
     \<lparr>cards = [], isReviewing = False, isGenerating = False, showGenerateModal = False,
      topicInput = [], reviewQueue = [], currentCardIndex = 0, isFlipped = False,
      localStorage = stored\<rparr>"

section \<open>Loading, seeding and saving (lines 26-44)\<close>

text \<open>
  In every handler the readings of \<^verbatim>\<open>Date.now()\<close> taken during one synchronous run
  are one value, the parameter \<open>now\<close>.
\<close>

definition seed :: "int \<Rightarrow> FlashCard list" where
  "seed now =
     [\<lparr>front = ''What constitutes the UK?'',
       back_card = ''England, Scotland, Wales, and Northern Ireland.'',
       topic = ''Geography'',
       id_card = ''1'', box = 0, nextReview = now, createdAt = now\<rparr>,
      \<lparr>front = ''Who built the Tower of London?'',
       back_card = ''William the Conqueror'',
       topic = ''History'',
       id_card = ''2'', box = 0, nextReview = now, createdAt = now\<rparr>]"

text \<open>
  The mount effect:
  \<^verbatim>\<open>
    const savedCards = localStorage.getItem('uk_life_flashcards');
    if (savedCards) { setCards(JSON.parse(savedCards)); }
    else { ...; setCards(seed); localStorage.setItem('uk_life_flashcards', JSON.stringify(seed)); }
  \<close>
\<close>

definition mount :: "int \<Rightarrow> manager_state \<Rightarrow> manager_state" where
  "mount now s =
     (case localStorage s of
        savedCards # _ \<Rightarrow> s\<lparr>cards := savedCards\<rparr>
      | [] \<Rightarrow> s\<lparr>cards := seed now, localStorage := seed now # localStorage s\<rparr>)"

text \<open>
  \<^verbatim>\<open>
    const saveCards = (newCards) => {
      setCards(newCards);
      localStorage.setItem('uk_life_flashcards', JSON.stringify(newCards)); };
  \<close>
\<close>

definition saveCards :: "FlashCard list \<Rightarrow> manager_state \<Rightarrow> manager_state" where
  "saveCards newCards s = s\<lparr>cards := newCards, localStorage := newCards # localStorage s\<rparr>"

section \<open>Deck statistics (lines 46-50)\<close>

definition stats :: "int \<Rightarrow> FlashCard list \<Rightarrow> FlashCardDeckStats" where
  "stats now cs =
     \<lparr>totalCards = length cs,
      dueCards = length (filter (\<lambda>c. nextReview c \<le> now) cs),
      masteredCards = length (filter (\<lambda>c. box c \<ge> 4) cs)\<rparr>"

section \<open>Generating cards (handleGenerate, lines 52-74)\<close>

text \<open>
  \<^verbatim>\<open>String.prototype.trim\<close> on the topic typed by the user, which is kept as the list
  of its UTF-16 code units. The code units removed at both ends are those of ECMAScript's
  white space and line terminators: tab, line feed, vertical tab, form feed, carriage
  return, space, no-break space (U+00A0), U+1680, U+2000 to U+200A, the line and
  paragraph separators U+2028 and U+2029, U+202F, U+205F, U+3000 and U+FEFF.
\<close>

definition js_space :: "nat \<Rightarrow> bool" where
  "js_space c =
     (c \<in> {9, 10, 11, 12, 13, 32, 160, 5760, 8232, 8233, 8239, 8287, 12288, 65279}
      \<or> (8192 \<le> c \<and> c \<le> 8202))"

definition js_trim :: "nat list \<Rightarrow> nat list" where
  "js_trim str = rev (dropWhile js_space (rev (dropWhile js_space str)))"

text \<open>
  The cards made of the provider's records; \<open>random_id i\<close> is the string that
  \<^verbatim>\<open>Math.random().toString(36).substr(2, 9)\<close> gives for the \<open>i\<close>-th record:
  \<^verbatim>\<open>
    newCardsData.map(c => ({ ...c, id: ..., box: 0, nextReview: Date.now(),
                             createdAt: Date.now() }))
  \<close>
\<close>

definition newCards :: "int \<Rightarrow> (nat \<Rightarrow> string) \<Rightarrow> GeneratedCard list \<Rightarrow> FlashCard list" where
  "newCards now random_id newCardsData =
     map (\<lambda>(i, c). \<lparr>front = front c, back_card = back_card c, topic = topic c,
                    id_card = random_id i, box = 0, nextReview = now, createdAt = now\<rparr>)
       (enumerate 0 newCardsData)"

text \<open>
  The handler as one step, from the click to the end of the \<^verbatim>\<open>finally\<close> block (the
  loading screen is the only view in between). The provider's answer is \<open>Some\<close> of its
  records, or \<open>None\<close> when \<^verbatim>\<open>generateFlashCards\<close> throws; then the handler alerts
  and saves nothing.
\<close>

definition handleGenerate ::
    "int \<Rightarrow> (nat \<Rightarrow> string) \<Rightarrow> GeneratedCard list option \<Rightarrow> manager_state \<Rightarrow> manager_state" where
  "handleGenerate now random_id response s =
     (if js_trim (topicInput s) = [] then s
      else
        (case response of
           None \<Rightarrow> s\<lparr>isGenerating := False\<rparr>
         | Some newCardsData \<Rightarrow>
             (saveCards (cards s @ newCards now random_id newCardsData) s)
               \<lparr>topicInput := [], showGenerateModal := False, isGenerating := False\<rparr>))"

section \<open>The review session (lines 76-134, 141-165)\<close>

text \<open>
  \<^verbatim>\<open>
    const due = cards.filter(c => c.nextReview <= Date.now())
                     .sort((a, b) => a.nextReview - b.nextReview);
    setReviewQueue(due); setCurrentCardIndex(0); setIsFlipped(false); setIsReviewing(true);
  \<close>
  \<^verbatim>\<open>Array.prototype.sort\<close> is stable, and it sorts the array that \<^verbatim>\<open>filter\<close> made,
  not \<^verbatim>\<open>cards\<close>; \<open>sort_key\<close> is the stable insertion sort.
\<close>

definition startReview :: "int \<Rightarrow> manager_state \<Rightarrow> manager_state" where
  "startReview now s =
     s\<lparr>reviewQueue := sort_key nextReview (filter (\<lambda>c. nextReview c \<le> now) (cards s)),
       currentCardIndex := 0,
       isFlipped := False,
       isReviewing := True\<rparr>"

text \<open>
  The card's \<^verbatim>\<open>onFlip\<close>: \<^verbatim>\<open>setIsFlipped(!isFlipped)\<close>.
\<close>

definition onFlip :: "manager_state \<Rightarrow> manager_state" where
  "onFlip s = s\<lparr>isFlipped := \<not> isFlipped s\<rparr>"

text \<open>
  The Quit button's \<^verbatim>\<open>onClick\<close>: \<^verbatim>\<open>setIsReviewing(false)\<close>.
\<close>

definition quit :: "manager_state \<Rightarrow> manager_state" where
  "quit s = s\<lparr>isReviewing := False\<rparr>"

text \<open>
  The update of one card of the deck in \<^verbatim>\<open>handleReviewResult\<close>:
  \<^verbatim>\<open>c.id === currentCard.id ? { ...c, box: newBox, nextReview: nextReview } : c\<close>
\<close>

definition updateCard :: "FlashCard \<Rightarrow> int \<Rightarrow> int \<Rightarrow> FlashCard \<Rightarrow> FlashCard" where
  "updateCard currentCard newBox nextReview' c =
     (if id_card c = id_card currentCard then c\<lparr>box := newBox, nextReview := nextReview'\<rparr>
      else c)"

text \<open>
  \<^verbatim>\<open>handleReviewResult(success)\<close>. \<^verbatim>\<open>reviewQueue[currentCardIndex]\<close> is
  \<^verbatim>\<open>undefined\<close> past the end of the queue, and \<^verbatim>\<open>currentCard.box\<close> throws then.
  Otherwise the scheduler runs on the box of the queue's card, the deck is mapped and
  saved, and
  \<^verbatim>\<open>
    if (currentCardIndex < reviewQueue.length - 1) {
      setIsFlipped(false); setCurrentCardIndex(prev => prev + 1);
    } else { setIsReviewing(false); }
  \<close>
\<close>

definition handleReviewResult :: "int \<Rightarrow> bool \<Rightarrow> manager_state \<Rightarrow> error + manager_state" where
  "handleReviewResult now success s =
     (case js_index (reviewQueue s) (int (currentCardIndex s)) of
        None \<Rightarrow> Inl TypeError
      | Some currentCard \<Rightarrow>
          (let (newBox, nextReview') = scheduler now (box currentCard) success;
               updatedCards = map (updateCard currentCard newBox nextReview') (cards s);
               s' = saveCards updatedCards s
           in Inr (if int (currentCardIndex s) < int (length (reviewQueue s)) - 1
                   then s'\<lparr>isFlipped := False, currentCardIndex := currentCardIndex s + 1\<rparr>
                   else s'\<lparr>isReviewing := False\<rparr>)))"

text \<open>
  What the component renders: the loading screen while generating, the review view when
  \<^verbatim>\<open>isReviewing && reviewQueue.length > 0\<close>, the dashboard otherwise. The review view is
  the session's active state, with the cursor \<open>currentCardIndex\<close> and the reveal state
  \<open>isFlipped\<close>; a session has ended when the dashboard is back.
\<close>

datatype view = Loading | Review | Dashboard

definition render :: "manager_state \<Rightarrow> view" where
  "render s =
     (if isGenerating s then Loading
      else if isReviewing s \<and> length (reviewQueue s) > 0 then Review
      else Dashboard)"

text \<open>
  A user going through the session card after card: the answer is revealed, then the
  outcome is reported, at the time and with the result given for the card.
\<close>

fun answer_cards :: "(int \<times> bool) list \<Rightarrow> manager_state \<Rightarrow> error + manager_state" where
  "answer_cards [] s = Inr s"
| "answer_cards ((now, success) # outcomes) s =
     (case handleReviewResult now success (onFlip s) of
        Inl e \<Rightarrow> Inl e
      | Inr s' \<Rightarrow> answer_cards outcomes s')"

section \<open>The invariant of the data model\<close>

text \<open>
  The box of a card is in \<open>[0, 6]\<close>; the invariant of the component is that this holds
  for every card it holds: in the deck, in the review queue and in local storage.
\<close>

definition box_in_range :: "FlashCard \<Rightarrow> bool" where
  "box_in_range c = (0 \<le> box c \<and> box c \<le> 6)"

definition boxes_in_range :: "manager_state \<Rightarrow> bool" where
  "boxes_in_range s =
     (list_all box_in_range (cards s)
      \<and> list_all box_in_range (reviewQueue s)
      \<and> list_all (list_all box_in_range) (localStorage s))"

section \<open>Example cards\<close>

text \<open>
  A card with the given id, box and next review time, for the concrete decks on which
  the theorems below are instantiated.
\<close>

definition example_card :: "string \<Rightarrow> int \<Rightarrow> int \<Rightarrow> FlashCard" where
  "example_card i b n =
     \<lparr>front = ''Q'', back_card = ''A'', topic = ''T'',
      id_card = i, box = b, nextReview = n, createdAt = 0\<rparr>"

text \<open>
  A deck of three new cards, two of them due at time 10000, and the state of the
  component that finds this deck in local storage when it mounts.
\<close>

definition example_deck :: "FlashCard list" where
  "example_deck =
     [example_card ''a'' 0 9000, example_card ''b'' 0 11000, example_card ''c'' 0 5000]"

definition example_state :: manager_state where
  "example_state = mount 0 (initial [example_deck])"

section \<open>Properties of the scheduler\<close>

lemma length_intervals: "length intervals = 6"
  by (simp add: intervals_def)

lemma scheduler_failure: "scheduler now b False = (0, now + 86400000)"
  by (simp add: scheduler_def)

lemma js_index_intervals:
  assumes "1 \<le> n" and "n \<le> 6"
  shows "js_index intervals (n - 1) = Some (intervals ! nat (n - 1))"
  using assms by (simp add: js_index_def length_intervals)

lemma intervals_positive:
  assumes "i < 6"
  shows "1 \<le> intervals ! i"
proof -
  from assms consider "i = 0" | "i = 1" | "i = 2" | "i = 3" | "i = 4" | "i = 5"
    by arith
  then show ?thesis
    by cases (simp_all add: intervals_def)
qed

lemma daysToAdd_table:
  assumes "1 \<le> n" and "n \<le> 6"
  shows "daysToAdd n = intervals ! nat (n - 1)"
proof -
  from assms have "nat (n - 1) < 6" by arith
  then have "1 \<le> intervals ! nat (n - 1)" by (rule intervals_positive)
  then show ?thesis
    using assms by (simp add: daysToAdd_def js_index_intervals js_or_def)
qed

lemma daysToAdd_fallback:
  assumes "n < 1 \<or> 6 < n"
  shows "daysToAdd n = 1"
  using assms by (auto simp add: daysToAdd_def js_index_def js_or_def length_intervals)

lemma daysToAdd_ge_1: "1 \<le> daysToAdd n"
proof (cases "1 \<le> n \<and> n \<le> 6")
  case True
  then have "nat (n - 1) < 6" by arith
  then have "1 \<le> intervals ! nat (n - 1)" by (rule intervals_positive)
  with True show ?thesis by (simp add: daysToAdd_table)
next
  case False
  then have "n < 1 \<or> 6 < n" by arith
  then show ?thesis by (simp add: daysToAdd_fallback)
qed

lemma scheduler_success:
  "scheduler now b True = (min (b + 1) 6, now + daysToAdd (min (b + 1) 6) * 86400000)"
  by (simp add: scheduler_def length_intervals Let_def)

text \<open>
  C1. For every current box in \<open>[0, 6]\<close>, a failed review gives the new box 0 and the next
  review exactly one day (86,400,000 ms) after \<open>now\<close>, whatever the current box is.
\<close>

theorem C1_failure_resets:
  assumes "0 \<le> currentBox" and "currentBox \<le> 6"
  shows "scheduler now currentBox False = (0, now + 86400000)"
  by (rule scheduler_failure)

theorem C1_failure_resets_witness:
  "scheduler 1700000000000 0 False = (0, 1700086400000) \<and>
   scheduler 1700000000000 4 False = (0, 1700086400000) \<and>
   scheduler 1700000000000 6 False = (0, 1700086400000)"
  using C1_failure_resets [of 0 1700000000000] C1_failure_resets [of 4 1700000000000]
    C1_failure_resets [of 6 1700000000000]
  by simp

text \<open>
  C2. For every current box in \<open>[0, 6]\<close>, a successful review gives the new box
  \<open>min (currentBox + 1) 6\<close> and the next review \<open>table[newBox - 1]\<close> days after
  \<open>now\<close>, for the table \<open>[1, 3, 7, 14, 30, 90]\<close> (box 1 reads entry 0, which is 1, and
  box 6 reads entry 5, which is 90); from box 0 the next review is one day after \<open>now\<close>.
\<close>

theorem C2_success_promotes:
  assumes "0 \<le> currentBox" and "currentBox \<le> 6"
  shows "scheduler now currentBox True =
           (min (currentBox + 1) 6,
            now + [1, 3, 7, 14, 30, 90] ! nat (min (currentBox + 1) 6 - 1) * 86400000)
         \<and> intervals = [1, 3, 7, 14, 30, 90]
         \<and> intervals ! 0 = 1 \<and> intervals ! 5 = 90
         \<and> scheduler now 0 True = (1, now + 86400000)"
proof (intro conjI)
  let ?n = "min (currentBox + 1) 6"
  from assms have range: "1 \<le> ?n" "?n \<le> 6" by simp_all
  have "scheduler now currentBox True = (?n, now + intervals ! nat (?n - 1) * 86400000)"
    by (simp only: scheduler_success daysToAdd_table [OF range])
  then show "scheduler now currentBox True =
      (?n, now + [1, 3, 7, 14, 30, 90] ! nat (?n - 1) * 86400000)"
    by (simp only: intervals_def)
  show "intervals = [1, 3, 7, 14, 30, 90]" by (simp only: intervals_def)
  show "intervals ! 0 = 1" by (simp add: intervals_def)
  show "intervals ! 5 = 90" by (simp add: intervals_def)
  show "scheduler now 0 True = (1, now + 86400000)"
    by (simp add: scheduler_success daysToAdd_def js_index_def js_or_def intervals_def)
qed

theorem C2_success_promotes_witness:
  "scheduler 1700000000000 3 True = (4, 1700000000000 + 14 * 86400000) \<and>
   scheduler 1700000000000 5 True = (6, 1700000000000 + 90 * 86400000) \<and>
   scheduler 1700000000000 6 True = (6, 1700000000000 + 90 * 86400000)"
proof -
  have "scheduler 1700000000000 3 True =
      (min (3 + 1) 6, 1700000000000 + [1, 3, 7, 14, 30, 90] ! nat (min (3 + 1) 6 - 1) * 86400000)"
    using C2_success_promotes [of 3 1700000000000] by (simp only: simp_thms)
  moreover have "scheduler 1700000000000 5 True =
      (min (5 + 1) 6, 1700000000000 + [1, 3, 7, 14, 30, 90] ! nat (min (5 + 1) 6 - 1) * 86400000)"
    using C2_success_promotes [of 5 1700000000000] by (simp only: simp_thms)
  moreover have "scheduler 1700000000000 6 True =
      (min (6 + 1) 6, 1700000000000 + [1, 3, 7, 14, 30, 90] ! nat (min (6 + 1) 6 - 1) * 86400000)"
    using C2_success_promotes [of 6 1700000000000] by (simp only: simp_thms)
  ultimately show ?thesis by simp
qed

text \<open>
  Successes at box 6, one after the other at the times \<open>ts\<close>.
\<close>

lemma scheduler_top: "scheduler now 6 True = (6, now + 7776000000)"
  by (simp add: scheduler_success daysToAdd_def js_index_def js_or_def intervals_def)

lemma fold_success_top:
  "fold (\<lambda>t st. scheduler t (fst st) True) ts (6, r) =
     (6, if ts = [] then r else last ts + 7776000000)"
proof (induction ts arbitrary: r)
  case Nil
  show ?case by simp
next
  case (Cons t ts)
  show ?case by (simp add: scheduler_top Cons.IH)
qed

text \<open>
  C3. The scheduler saturates at box 6: a success at box 6 gives box 6 again and the next
  review 90 days after \<open>now\<close>; the success step is idempotent on the box, and after any
  number of successes at box 6 the box is still 6 and the next review is 90 days after
  the time of the last success. Against the previous next review \<open>r\<close> of the card, a
  success at time \<open>now\<close> advances the next review by 90 days plus the delay \<open>now - r\<close>
  of the review: by at least 90 days for a due card (\<open>r \<le> now\<close>), and by exactly 90
  days only when the review happens at \<open>now = r\<close>.
\<close>

theorem C3_saturates_at_6:
  "scheduler now 6 True = (6, now + 90 * 86400000)
   \<and> fst (scheduler later (fst (scheduler now 6 True)) True) = fst (scheduler now 6 True)
   \<and> fst (fold (\<lambda>t st. scheduler t (fst st) True) ts (6, r)) = 6
   \<and> (ts \<noteq> [] \<longrightarrow>
        snd (fold (\<lambda>t st. scheduler t (fst st) True) ts (6, r)) = last ts + 90 * 86400000)
   \<and> snd (scheduler now 6 True) - r = 90 * 86400000 + (now - r)
   \<and> (r \<le> now \<longrightarrow> r + 90 * 86400000 \<le> snd (scheduler now 6 True))
   \<and> (snd (scheduler now 6 True) = r + 90 * 86400000 \<longleftrightarrow> now = r)"
  by (simp add: scheduler_top fold_success_top)

theorem C3_saturates_at_6_witness:
  "fold (\<lambda>t st. scheduler t (fst st) True) [100, 7776000100, 15552000200] (6, 50)
     = (6, 15552000200 + 90 * 86400000)
   \<and> snd (scheduler 100 6 True) - 50 = 90 * 86400000 + 50
   \<and> 50 + 90 * 86400000 \<le> snd (scheduler 100 6 True)
   \<and> snd (scheduler 50 6 True) = 50 + 90 * 86400000"
  using C3_saturates_at_6 [of 100 0 "[100, 7776000100, 15552000200]" 50]
    C3_saturates_at_6 [of 50 0 "[]" 50]
  by (simp add: prod_eq_iff scheduler_top)

section \<open>One outcome of a review\<close>

text \<open>
  Inside the queue, \<^verbatim>\<open>handleReviewResult\<close> does not throw; \<open>after_result\<close> is the
  state it returns.
\<close>

lemma handleReviewResult_out_of_range:
  assumes "length (reviewQueue s) \<le> currentCardIndex s"
  shows "handleReviewResult now success s = Inl TypeError"
  using assms by (simp add: handleReviewResult_def js_index_def)

lemma handleReviewResult_in_range:
  assumes "currentCardIndex s < length (reviewQueue s)"
  shows "\<exists>s'. handleReviewResult now success s = Inr s'
    \<and> cards s' = map (updateCard (reviewQueue s ! currentCardIndex s)
                      (fst (scheduler now (box (reviewQueue s ! currentCardIndex s)) success))
                      (snd (scheduler now (box (reviewQueue s ! currentCardIndex s)) success)))
                   (cards s)
    \<and> localStorage s' = cards s' # localStorage s
    \<and> reviewQueue s' = reviewQueue s
    \<and> isGenerating s' = isGenerating s
    \<and> (if currentCardIndex s + 1 < length (reviewQueue s)
        then isReviewing s' = isReviewing s \<and> currentCardIndex s' = currentCardIndex s + 1
             \<and> \<not> isFlipped s'
        else \<not> isReviewing s' \<and> currentCardIndex s' = currentCardIndex s
             \<and> isFlipped s' = isFlipped s)"
proof -
  obtain nb nr where sch: "scheduler now (box (reviewQueue s ! currentCardIndex s)) success = (nb, nr)"
    by (cases "scheduler now (box (reviewQueue s ! currentCardIndex s)) success")
  have idx: "js_index (reviewQueue s) (int (currentCardIndex s)) = Some (reviewQueue s ! currentCardIndex s)"
    using assms by (simp add: js_index_def)
  show ?thesis
  proof (cases "currentCardIndex s + 1 < length (reviewQueue s)")
    case True
    then have "int (currentCardIndex s) < int (length (reviewQueue s)) - 1" by arith
    then show ?thesis
      using True by (simp add: handleReviewResult_def idx sch saveCards_def Let_def)
  next
    case False
    then have "\<not> int (currentCardIndex s) < int (length (reviewQueue s)) - 1" by arith
    then show ?thesis
      using False by (simp add: handleReviewResult_def idx sch saveCards_def Let_def)
  qed
qed

text \<open>
  A success does not advance the next review by exactly 90 days in general: a card at
  box 6 that was due at time 50 and is answered at time 100 gets the next review
  \<open>100 + 90\<close> days, which is not \<open>50 + 90\<close> days, both by the scheduler and in the deck that
  \<^verbatim>\<open>handleReviewResult\<close> leaves.
\<close>

theorem C3_advance_counterexample:
  "(50::int) \<le> 100
   \<and> fst (scheduler 100 6 True) = 6
   \<and> snd (scheduler 100 6 True) \<noteq> 50 + 90 * 86400000
   \<and> \<not> isl (handleReviewResult 100 True
          (onFlip (startReview 100 (mount 0 (initial [[example_card ''a'' 6 50]])))))
   \<and> map nextReview (cards (projr (handleReviewResult 100 True
          (onFlip (startReview 100 (mount 0 (initial [[example_card ''a'' 6 50]])))))))
       = [7776000100]
   \<and> map box (cards (projr (handleReviewResult 100 True
          (onFlip (startReview 100 (mount 0 (initial [[example_card ''a'' 6 50]])))))))
       = [6]"
proof -
  let ?t = "onFlip (startReview 100 (mount 0 (initial [[example_card ''a'' 6 50]])))"
  have t: "reviewQueue ?t = [example_card ''a'' 6 50]" "currentCardIndex ?t = 0"
    "cards ?t = [example_card ''a'' 6 50]"
    by (simp_all add: onFlip_def startReview_def mount_def initial_def example_card_def)
  then have "currentCardIndex ?t < length (reviewQueue ?t)" by simp
  from handleReviewResult_in_range [OF this, of 100 True] obtain s' where
    r: "handleReviewResult 100 True ?t = Inr s'" and
    cs: "cards s' = map (updateCard (reviewQueue ?t ! currentCardIndex ?t)
                      (fst (scheduler 100 (box (reviewQueue ?t ! currentCardIndex ?t)) True))
                      (snd (scheduler 100 (box (reviewQueue ?t ! currentCardIndex ?t)) True)))
                   (cards ?t)"
    by blast
  have "cards s' = [example_card ''a'' 6 7776000100]"
    unfolding cs t by (simp add: example_card_def updateCard_def scheduler_top)
  then have "map nextReview (cards s') = [7776000100]" "map box (cards s') = [6]"
    by (simp_all add: example_card_def)
  then show ?thesis by (simp add: r scheduler_top)
qed

lemma scheduler_next_review_ge: "now + 86400000 \<le> snd (scheduler now b success)"
proof (cases success)
  case True
  have "1 \<le> daysToAdd (min (b + 1) 6)" by (rule daysToAdd_ge_1)
  then show ?thesis using True by (simp add: scheduler_success)
next
  case False
  then show ?thesis by (simp add: scheduler_failure)
qed

text \<open>
  C10. For every current box in \<open>[0, 6]\<close> and either outcome, the next review is at least
  one day (86,400,000 ms) after \<open>now\<close>: the table entry read for the new box exists and
  is at least 1, so the fallback of \<^verbatim>\<open>|| 1\<close> is not needed and the interval in days is
  at least 1; the card that was just reviewed is not due at \<open>now\<close>, neither as the
  scheduler's result nor in the deck after \<^verbatim>\<open>handleReviewResult\<close>.
\<close>

theorem C10_next_review_at_least_one_day:
  assumes "0 \<le> currentBox" and "currentBox \<le> 6"
  shows "now + 86400000 \<le> snd (scheduler now currentBox success)
    \<and> \<not> snd (scheduler now currentBox success) \<le> now
    \<and> (\<exists>d. js_index intervals (fst (scheduler now currentBox True) - 1) = Some d \<and> 1 \<le> d
           \<and> daysToAdd (fst (scheduler now currentBox True)) = d)
    \<and> (\<forall>s :: manager_state. currentCardIndex s < length (reviewQueue s)
            \<and> box (reviewQueue s ! currentCardIndex s) = currentBox \<longrightarrow>
          (\<exists>s'. handleReviewResult now success s = Inr s'
             \<and> (\<forall>c \<in> set (cards s').
                   id_card c = id_card (reviewQueue s ! currentCardIndex s) \<longrightarrow>
                   now + 86400000 \<le> nextReview c \<and> \<not> nextReview c \<le> now)))"
proof (intro conjI allI impI)
  show ge: "now + 86400000 \<le> snd (scheduler now currentBox success)"
    by (rule scheduler_next_review_ge)
  then show "\<not> snd (scheduler now currentBox success) \<le> now" by arith
  let ?n = "min (currentBox + 1) 6"
  from assms have range: "1 \<le> ?n" "?n \<le> 6" by simp_all
  then have "nat (?n - 1) < 6" by arith
  then have pos: "1 \<le> intervals ! nat (?n - 1)" by (rule intervals_positive)
  have "fst (scheduler now currentBox True) = ?n" by (simp add: scheduler_success)
  then show "\<exists>d. js_index intervals (fst (scheduler now currentBox True) - 1) = Some d \<and> 1 \<le> d
           \<and> daysToAdd (fst (scheduler now currentBox True)) = d"
    using pos by (simp only: js_index_intervals [OF range] daysToAdd_table [OF range]) simp
next
  fix s :: manager_state
  assume a: "currentCardIndex s < length (reviewQueue s)
            \<and> box (reviewQueue s ! currentCardIndex s) = currentBox"
  let ?c = "reviewQueue s ! currentCardIndex s"
  from a handleReviewResult_in_range [of s now success] obtain s' where
    r: "handleReviewResult now success s = Inr s'" and
    cs: "cards s' = map (updateCard ?c (fst (scheduler now (box ?c) success))
                      (snd (scheduler now (box ?c) success))) (cards s)"
    by blast
  have "\<forall>c \<in> set (cards s'). id_card c = id_card ?c \<longrightarrow>
          now + 86400000 \<le> nextReview c \<and> \<not> nextReview c \<le> now"
  proof (intro ballI impI)
    fix c
    assume "c \<in> set (cards s')" and same: "id_card c = id_card ?c"
    then obtain c0 where c: "c = updateCard ?c (fst (scheduler now (box ?c) success))
                      (snd (scheduler now (box ?c) success)) c0"
      by (auto simp add: cs)
    have "id_card c0 = id_card ?c" using same c by (simp add: updateCard_def split: if_splits)
    then have "nextReview c = snd (scheduler now (box ?c) success)"
      using c by (simp add: updateCard_def)
    moreover have "now + 86400000 \<le> snd (scheduler now (box ?c) success)"
      by (rule scheduler_next_review_ge)
    ultimately show "now + 86400000 \<le> nextReview c \<and> \<not> nextReview c \<le> now" by arith
  qed
  with r show "\<exists>s'. handleReviewResult now success s = Inr s'
             \<and> (\<forall>c \<in> set (cards s').
                   id_card c = id_card (reviewQueue s ! currentCardIndex s) \<longrightarrow>
                   now + 86400000 \<le> nextReview c \<and> \<not> nextReview c \<le> now)"
    by blast
qed

theorem C10_next_review_at_least_one_day_witness:
  "(1000 :: int) + 86400000 \<le> snd (scheduler 1000 2 True)
   \<and> (1000 :: int) + 86400000 \<le> snd (scheduler 1000 6 False)
   \<and> \<not> snd (scheduler 1000 2 True) \<le> 1000
   \<and> (\<exists>s'. handleReviewResult 10000 False (startReview 10000 example_state) = Inr s'
         \<and> filter (\<lambda>c. id_card c = ''c'' \<and> nextReview c \<le> 10000) (cards s') = [])"
proof -
  let ?t = "startReview 10000 example_state"
  have q: "reviewQueue ?t = [example_card ''c'' 0 5000, example_card ''a'' 0 9000]"
    "currentCardIndex ?t = 0"
    by (simp_all add: startReview_def example_state_def mount_def initial_def
        example_deck_def example_card_def)
  have cur: "currentCardIndex ?t < length (reviewQueue ?t)
      \<and> box (reviewQueue ?t ! currentCardIndex ?t) = 0"
    by (simp add: q example_card_def)
  have r: "(0::int) \<le> 0" "(0::int) \<le> 6" by simp_all
  from C10_next_review_at_least_one_day [OF r, of 10000 False]
  have "\<forall>s :: manager_state. currentCardIndex s < length (reviewQueue s)
            \<and> box (reviewQueue s ! currentCardIndex s) = 0 \<longrightarrow>
          (\<exists>s'. handleReviewResult 10000 False s = Inr s'
             \<and> (\<forall>c \<in> set (cards s').
                   id_card c = id_card (reviewQueue s ! currentCardIndex s) \<longrightarrow>
                   10000 + 86400000 \<le> nextReview c \<and> \<not> nextReview c \<le> 10000))"
    by blast
  from this [rule_format, OF cur] obtain s' where
    step: "handleReviewResult 10000 False ?t = Inr s'" and
    later: "\<forall>c \<in> set (cards s').
                   id_card c = id_card (reviewQueue ?t ! currentCardIndex ?t) \<longrightarrow>
                   10000 + 86400000 \<le> nextReview c \<and> \<not> nextReview c \<le> 10000"
    by blast
  have "id_card (reviewQueue ?t ! currentCardIndex ?t) = ''c''"
    by (simp add: q example_card_def)
  with later have "filter (\<lambda>c. id_card c = ''c'' \<and> nextReview c \<le> 10000) (cards s') = []"
    by (simp add: filter_empty_conv)
  with step have deck: "\<exists>s'. handleReviewResult 10000 False ?t = Inr s'
         \<and> filter (\<lambda>c. id_card c = ''c'' \<and> nextReview c \<le> 10000) (cards s') = []"
    by blast
  have "(1000 :: int) + 86400000 \<le> snd (scheduler 1000 2 True)
   \<and> (1000 :: int) + 86400000 \<le> snd (scheduler 1000 6 False)
   \<and> \<not> snd (scheduler 1000 2 True) \<le> 1000"
    using C10_next_review_at_least_one_day [of 2 1000 True]
      C10_next_review_at_least_one_day [of 6 1000 False]
    by simp
  with deck show ?thesis by blast
qed

section \<open>Deck statistics\<close>

text \<open>
  C5. For every deck and time \<open>now\<close>, \<open>totalCards\<close> is the number of cards, \<open>dueCards\<close> is
  the number of positions of the deck whose card has \<open>nextReview \<le> now\<close>, and
  \<open>masteredCards\<close> is the number of positions whose card has \<open>box \<ge> 4\<close>; a deck with the
  boxes \<open>[0, 2, 4, 5]\<close> has 2 mastered cards.
\<close>

theorem C5_deck_stats:
  "totalCards (stats now cs) = length cs
   \<and> dueCards (stats now cs) = card {i. i < length cs \<and> nextReview (cs ! i) \<le> now}
   \<and> masteredCards (stats now cs) = card {i. i < length cs \<and> box (cs ! i) \<ge> 4}
   \<and> (map box cs = [0, 2, 4, 5] \<longrightarrow> masteredCards (stats now cs) = 2)"
proof (intro conjI impI)
  show "totalCards (stats now cs) = length cs" by (simp add: stats_def)
  show "dueCards (stats now cs) = card {i. i < length cs \<and> nextReview (cs ! i) \<le> now}"
    by (simp add: stats_def length_filter_conv_card)
  show "masteredCards (stats now cs) = card {i. i < length cs \<and> box (cs ! i) \<ge> 4}"
    by (simp add: stats_def length_filter_conv_card)
next
  assume boxes: "map box cs = [0, 2, 4, 5]"
  have "length (filter (\<lambda>c. box c \<ge> 4) cs) = length (filter (\<lambda>b. b \<ge> 4) (map box cs))"
    by (simp add: filter_map comp_def)
  also have "\<dots> = 2" by (simp add: boxes)
  finally show "masteredCards (stats now cs) = 2" by (simp add: stats_def)
qed

theorem C5_deck_stats_witness:
  "map box (map (\<lambda>b. \<lparr>front = ''f'', back_card = ''b'', topic = ''t'', id_card = ''i'', box = b,
                       nextReview = 0, createdAt = 0\<rparr>) [0, 2, 4, 5]) = [0, 2, 4, 5]
   \<and> masteredCards (stats 10 (map (\<lambda>b. \<lparr>front = ''f'', back_card = ''b'', topic = ''t'',
                       id_card = ''i'', box = b, nextReview = 0, createdAt = 0\<rparr>) [0, 2, 4, 5])) = 2
   \<and> totalCards (stats 10 (seed 20 @ seed 5)) = 4
   \<and> dueCards (stats 10 (seed 20 @ seed 5)) = 2"
proof -
  let ?cs = "map (\<lambda>b. \<lparr>front = ''f'', back_card = ''b'', topic = ''t'', id_card = ''i'', box = b,
                       nextReview = 0, createdAt = 0\<rparr>) [0, 2, 4, 5]"
  have boxes: "map box ?cs = [0, 2, 4, 5]" by simp
  have "masteredCards (stats 10 ?cs) = 2"
    using C5_deck_stats [of 10 ?cs] boxes by blast
  moreover have "totalCards (stats 10 (seed 20 @ seed 5)) = 4"
    using C5_deck_stats [of 10 "seed 20 @ seed 5"] by (simp add: seed_def)
  moreover have "dueCards (stats 10 (seed 20 @ seed 5)) = 2"
    by (simp add: stats_def seed_def)
  ultimately show ?thesis using boxes by blast
qed

section \<open>The due queue\<close>

lemma handleReviewResult_queue:
  assumes "handleReviewResult now success s = Inr s'"
  shows "reviewQueue s' = reviewQueue s"
proof (cases "currentCardIndex s < length (reviewQueue s)")
  case True
  from handleReviewResult_in_range [OF True, of now success] assms show ?thesis by auto
next
  case False
  then have "handleReviewResult now success s = Inl TypeError"
    by (simp add: handleReviewResult_out_of_range)
  with assms show ?thesis by simp
qed

lemma answer_cards_queue:
  assumes "answer_cards outcomes s = Inr s'"
  shows "reviewQueue s' = reviewQueue s"
  using assms
proof (induction outcomes arbitrary: s)
  case Nil
  then show ?case by simp
next
  case (Cons o1 outcomes)
  obtain now success where o1: "o1 = (now, success)" by (cases o1)
  from Cons.prems obtain s1 where
    step: "handleReviewResult now success (onFlip s) = Inr s1" and
    rest: "answer_cards outcomes s1 = Inr s'"
    by (auto simp add: o1 split: sum.splits)
  from rest have "reviewQueue s' = reviewQueue s1" by (rule Cons.IH)
  also from step have "\<dots> = reviewQueue (onFlip s)" by (rule handleReviewResult_queue)
  also have "\<dots> = reviewQueue s" by (simp add: onFlip_def)
  finally show ?case .
qed

lemma due_example:
  assumes "map nextReview cs = [now - 1000, now + 1000, now - 5000]"
  shows "sort_key nextReview (filter (\<lambda>c. nextReview c \<le> now) cs) = [cs ! 2, cs ! 0]"
proof -
  from assms obtain c0 c1 c2 where cs: "cs = [c0, c1, c2]"
    and n: "nextReview c0 = now - 1000" "nextReview c1 = now + 1000" "nextReview c2 = now - 5000"
    by (auto simp add: map_eq_Cons_conv)
  show ?thesis by (simp add: cs n)
qed

text \<open>
  C4. For every deck and time \<open>now\<close>, the queue built by \<^verbatim>\<open>startReview\<close> holds exactly
  the cards of the deck with \<open>nextReview \<le> now\<close> (as a multiset, and so as a set), in
  ascending order of \<open>nextReview\<close>; for the \<open>nextReview\<close> values
  \<open>[now - 1000, now + 1000, now - 5000]\<close> it is the third card, then the first. The queue
  is fixed during the session: revealing, reporting an outcome, a whole run of outcomes
  and quitting leave it as it is.
\<close>

theorem C4_due_queue_fixed:
  "mset (reviewQueue (startReview now s))
      = filter_mset (\<lambda>c. nextReview c \<le> now) (mset (cards s))
   \<and> (\<forall>c. c \<in> set (reviewQueue (startReview now s))
            \<longleftrightarrow> c \<in> set (cards s) \<and> nextReview c \<le> now)
   \<and> sorted (map nextReview (reviewQueue (startReview now s)))
   \<and> (map nextReview (cards s) = [now - 1000, now + 1000, now - 5000] \<longrightarrow>
        reviewQueue (startReview now s) = [cards s ! 2, cards s ! 0])
   \<and> reviewQueue (onFlip s) = reviewQueue s
   \<and> reviewQueue (quit s) = reviewQueue s
   \<and> (\<forall>t success s'. handleReviewResult t success s = Inr s' \<longrightarrow>
         reviewQueue s' = reviewQueue s)
   \<and> (\<forall>outcomes s'. answer_cards outcomes s = Inr s' \<longrightarrow> reviewQueue s' = reviewQueue s)"
proof (intro conjI allI impI)
  show "mset (reviewQueue (startReview now s))
      = filter_mset (\<lambda>c. nextReview c \<le> now) (mset (cards s))"
    by (simp add: startReview_def)
  show "c \<in> set (reviewQueue (startReview now s))
            \<longleftrightarrow> c \<in> set (cards s) \<and> nextReview c \<le> now" for c
    by (simp add: startReview_def)
  show "sorted (map nextReview (reviewQueue (startReview now s)))"
    by (simp add: startReview_def)
  show "reviewQueue (startReview now s) = [cards s ! 2, cards s ! 0]"
    if "map nextReview (cards s) = [now - 1000, now + 1000, now - 5000]"
    using that by (simp add: startReview_def due_example)
  show "reviewQueue (onFlip s) = reviewQueue s" by (simp add: onFlip_def)
  show "reviewQueue (quit s) = reviewQueue s" by (simp add: quit_def)
  show "reviewQueue s' = reviewQueue s" if "handleReviewResult t success s = Inr s'"
    for t success s'
    using that by (rule handleReviewResult_queue)
  show "reviewQueue s' = reviewQueue s" if "answer_cards outcomes s = Inr s'" for outcomes s'
    using that by (rule answer_cards_queue)
qed

theorem C4_due_queue_fixed_witness:
  "map nextReview (cards ((initial [])\<lparr>cards :=
       [example_card ''a'' 0 9000, example_card ''b'' 0 11000, example_card ''c'' 0 5000]\<rparr>))
     = [10000 - 1000, 10000 + 1000, 10000 - 5000]
   \<and> reviewQueue (startReview 10000 ((initial [])\<lparr>cards :=
       [example_card ''a'' 0 9000, example_card ''b'' 0 11000, example_card ''c'' 0 5000]\<rparr>))
     = [example_card ''c'' 0 5000, example_card ''a'' 0 9000]
   \<and> (\<exists>s'. handleReviewResult 10000 True (onFlip (startReview 10000 ((initial [])\<lparr>cards :=
       [example_card ''a'' 0 9000, example_card ''b'' 0 11000, example_card ''c'' 0 5000]\<rparr>)))
         = Inr s'
       \<and> reviewQueue s' = [example_card ''c'' 0 5000, example_card ''a'' 0 9000])"
proof -
  let ?s = "(initial [])\<lparr>cards :=
       [example_card ''a'' 0 9000, example_card ''b'' 0 11000, example_card ''c'' 0 5000]\<rparr>"
  have nexts: "map nextReview (cards ?s) = [10000 - 1000, 10000 + 1000, 10000 - 5000]"
    by (simp add: example_card_def)
  with C4_due_queue_fixed [of 10000 ?s]
  have queue: "reviewQueue (startReview 10000 ?s) = [cards ?s ! 2, cards ?s ! 0]"
    by blast
  then have queue': "reviewQueue (startReview 10000 ?s)
      = [example_card ''c'' 0 5000, example_card ''a'' 0 9000]"
    by simp
  let ?t = "onFlip (startReview 10000 ?s)"
  have "currentCardIndex ?t < length (reviewQueue ?t)"
    using queue' by (simp add: onFlip_def startReview_def)
  then obtain s' where step: "handleReviewResult 10000 True ?t = Inr s'"
    using handleReviewResult_in_range [of ?t 10000 True] by blast
  with C4_due_queue_fixed [of 10000 ?t] have "reviewQueue s' = reviewQueue ?t" by blast
  also have "\<dots> = reviewQueue (startReview 10000 ?s)" by (simp add: onFlip_def)
  finally have "reviewQueue s' = [example_card ''c'' 0 5000, example_card ''a'' 0 9000]"
    using queue' by simp
  with step nexts queue' show ?thesis by blast
qed

section \<open>The update of the deck\<close>

lemma updateCard_fields:
  "id_card (updateCard cur nb nr c) = id_card c"
  "front (updateCard cur nb nr c) = front c"
  "back_card (updateCard cur nb nr c) = back_card c"
  "createdAt (updateCard cur nb nr c) = createdAt c"
  "topic (updateCard cur nb nr c) = topic c"
  by (simp_all add: updateCard_def)

lemma updateCard_other:
  assumes "id_card c \<noteq> id_card cur"
  shows "updateCard cur nb nr c = c"
  using assms by (simp add: updateCard_def)

lemma updateCard_same:
  assumes "id_card c = id_card cur"
  shows "updateCard cur nb nr c = c\<lparr>box := nb, nextReview := nr\<rparr>"
  using assms by (simp add: updateCard_def)

lemma map_changes_one:
  assumes "j < length xs" and "\<forall>k < length xs. k \<noteq> j \<longrightarrow> f (xs ! k) = xs ! k"
  shows "map f xs = xs[j := f (xs ! j)]"
  using assms by (intro nth_equalityI) (auto simp add: nth_list_update)

lemma distinct_key_index:
  assumes "distinct (map g xs)" and "j < length xs" and "k < length xs"
    and "g (xs ! k) = g (xs ! j)"
  shows "k = j"
proof -
  from assms have "map g xs ! k = map g xs ! j" by simp
  moreover from assms have "k < length (map g xs)" "j < length (map g xs)" by simp_all
  ultimately show ?thesis using assms(1) by (simp only: nth_eq_iff_index_eq)
qed

lemma map_updateCard_one:
  assumes uniq: "distinct (map id_card cs)" and j: "j < length cs"
    and same: "id_card (cs ! j) = id_card cur"
  shows "map (updateCard cur nb nr) cs = cs[j := (cs ! j)\<lparr>box := nb, nextReview := nr\<rparr>]"
proof -
  have "\<forall>k < length cs. k \<noteq> j \<longrightarrow> updateCard cur nb nr (cs ! k) = cs ! k"
  proof (intro allI impI)
    fix k
    assume k: "k < length cs" and "k \<noteq> j"
    with distinct_key_index [OF uniq j k] same have "id_card (cs ! k) \<noteq> id_card cur" by auto
    then show "updateCard cur nb nr (cs ! k) = cs ! k" by (rule updateCard_other)
  qed
  with j have "map (updateCard cur nb nr) cs = cs[j := updateCard cur nb nr (cs ! j)]"
    by (rule map_changes_one)
  with same show ?thesis by (simp add: updateCard_same)
qed

text \<open>
  C8. An outcome changes exactly one card of the deck, found by id. In a deck with unique
  ids that holds the current card's id, \<^verbatim>\<open>handleReviewResult\<close> returns a state whose
  deck is the old deck with one position \<open>j\<close> replaced: the card there has the current
  card's id, and its box and next review are the scheduler's result on the current
  card's box. Its id, front, back, creation time and topic are unchanged, every other
  position is unchanged, and no card is added or deleted.
\<close>

theorem C8_outcome_updates_one_card:
  assumes "currentCardIndex s < length (reviewQueue s)"
    and "distinct (map id_card (cards s))"
    and "id_card (reviewQueue s ! currentCardIndex s) \<in> set (map id_card (cards s))"
  shows "\<exists>s'. handleReviewResult now success s = Inr s'
    \<and> length (cards s') = length (cards s)
    \<and> (\<exists>j. j < length (cards s)
          \<and> id_card (cards s ! j) = id_card (reviewQueue s ! currentCardIndex s)
          \<and> cards s' = (cards s)[j := (cards s ! j)
               \<lparr>box := fst (scheduler now (box (reviewQueue s ! currentCardIndex s)) success),
                nextReview := snd (scheduler now (box (reviewQueue s ! currentCardIndex s)) success)\<rparr>]
          \<and> id_card (cards s' ! j) = id_card (cards s ! j)
          \<and> front (cards s' ! j) = front (cards s ! j)
          \<and> back_card (cards s' ! j) = back_card (cards s ! j)
          \<and> createdAt (cards s' ! j) = createdAt (cards s ! j)
          \<and> topic (cards s' ! j) = topic (cards s ! j)
          \<and> (\<forall>k. k < length (cards s) \<and> k \<noteq> j \<longrightarrow> cards s' ! k = cards s ! k))"
proof -
  let ?cur = "reviewQueue s ! currentCardIndex s"
  let ?nb = "fst (scheduler now (box ?cur) success)"
  let ?nr = "snd (scheduler now (box ?cur) success)"
  from handleReviewResult_in_range [OF assms(1), of now success] obtain s' where
    r: "handleReviewResult now success s = Inr s'" and
    cs: "cards s' = map (updateCard ?cur ?nb ?nr) (cards s)"
    by blast
  from assms(3) obtain j where j: "j < length (cards s)"
    and same: "id_card (cards s ! j) = id_card ?cur"
    by (auto simp add: in_set_conv_nth)
  have upd: "cards s' = (cards s)[j := (cards s ! j)\<lparr>box := ?nb, nextReview := ?nr\<rparr>]"
    unfolding cs using assms(2) j same by (rule map_updateCard_one)
  have len: "length (cards s') = length (cards s)" by (simp add: cs)
  have at_j: "cards s' ! j = (cards s ! j)\<lparr>box := ?nb, nextReview := ?nr\<rparr>"
    using j by (simp add: upd)
  have others: "\<forall>k. k < length (cards s) \<and> k \<noteq> j \<longrightarrow> cards s' ! k = cards s ! k"
    by (simp add: upd)
  from r len j same upd at_j others show ?thesis
    by (intro exI [of _ s'] conjI exI [of _ j]) simp_all
qed

text \<open>
  The example session: the queue holds card \<open>c\<close>, then card \<open>a\<close>.
\<close>

lemma example_state_fields:
  "cards example_state = example_deck"
  "localStorage example_state = [example_deck]"
  "isReviewing example_state = False"
  "isGenerating example_state = False"
  by (simp_all add: example_state_def mount_def initial_def)

lemma example_session:
  "cards (startReview 10000 example_state) = example_deck"
  "localStorage (startReview 10000 example_state) = [example_deck]"
  "reviewQueue (startReview 10000 example_state)
     = [example_card ''c'' 0 5000, example_card ''a'' 0 9000]"
  "currentCardIndex (startReview 10000 example_state) = 0"
  "isReviewing (startReview 10000 example_state)"
  "\<not> isFlipped (startReview 10000 example_state)"
  "isGenerating (startReview 10000 example_state) = False"
  by (simp_all add: startReview_def example_state_fields example_deck_def example_card_def)

lemma example_deck_ids: "map id_card example_deck = [''a'', ''b'', ''c'']"
  by (simp add: example_deck_def example_card_def)

theorem C8_outcome_updates_one_card_witness:
  "\<exists>s'. handleReviewResult 10000 True (onFlip (startReview 10000 example_state)) = Inr s'
     \<and> cards s' = [example_card ''a'' 0 9000, example_card ''b'' 0 11000,
                    example_card ''c'' 1 86410000]"
proof -
  let ?t = "onFlip (startReview 10000 example_state)"
  have t: "cards ?t = example_deck"
    "reviewQueue ?t = [example_card ''c'' 0 5000, example_card ''a'' 0 9000]"
    "currentCardIndex ?t = 0"
    by (simp_all add: onFlip_def example_session)
  have h1: "currentCardIndex ?t < length (reviewQueue ?t)" by (simp add: t)
  have h2: "distinct (map id_card (cards ?t))" by (simp add: t example_deck_ids)
  have h3: "id_card (reviewQueue ?t ! currentCardIndex ?t) \<in> set (map id_card (cards ?t))"
    by (simp add: t example_deck_ids) (simp add: example_card_def)
  from C8_outcome_updates_one_card [OF h1 h2 h3, of 10000 True] obtain s' j where
    r: "handleReviewResult 10000 True ?t = Inr s'" and
    j: "j < length (cards ?t)" and
    same: "id_card (cards ?t ! j) = id_card (reviewQueue ?t ! currentCardIndex ?t)" and
    upd: "cards s' = (cards ?t)[j := (cards ?t ! j)
               \<lparr>box := fst (scheduler 10000 (box (reviewQueue ?t ! currentCardIndex ?t)) True),
                nextReview := snd (scheduler 10000 (box (reviewQueue ?t ! currentCardIndex ?t)) True)\<rparr>]"
    by blast
  from j have "j = 0 \<or> j = 1 \<or> j = 2" by (simp add: t example_deck_def) arith
  with same have j2: "j = 2" by (auto simp add: t example_deck_def example_card_def)
  have sch: "scheduler 10000 0 True = (1, 86410000)"
    by (simp add: scheduler_success daysToAdd_def js_index_def js_or_def intervals_def)
  have "cards s' = [example_card ''a'' 0 9000, example_card ''b'' 0 11000,
                    example_card ''c'' 1 86410000]"
    unfolding upd j2 by (simp add: t example_deck_def example_card_def sch)
  with r show ?thesis by blast
qed

section \<open>A session from start to end\<close>

lemma answer_cards_append:
  "answer_cards (xs @ ys) s =
     (case answer_cards xs s of Inl e \<Rightarrow> Inl e | Inr s' \<Rightarrow> answer_cards ys s')"
proof (induction xs arbitrary: s)
  case Nil
  show ?case by simp
next
  case (Cons x xs)
  obtain now success where x: "x = (now, success)" by (cases x)
  show ?case by (simp add: x Cons.IH split: sum.splits)
qed

lemma distinct_ids_due:
  assumes "distinct (map id_card cs)"
  shows "distinct (map id_card (sort_key nextReview (filter P cs)))"
proof -
  from assms have d: "distinct cs" and inj: "inj_on id_card (set cs)"
    by (simp_all add: distinct_map)
  have "set (sort_key nextReview (filter P cs)) \<subseteq> set cs" by auto
  with inj have "inj_on id_card (set (sort_key nextReview (filter P cs)))"
    by (rule inj_on_subset)
  moreover from d have "distinct (sort_key nextReview (filter P cs))" by simp
  ultimately show ?thesis by (simp add: distinct_map)
qed

lemma startReview_fields:
  "cards (startReview now s) = cards s"
  "localStorage (startReview now s) = localStorage s"
  "isGenerating (startReview now s) = isGenerating s"
  "currentCardIndex (startReview now s) = 0"
  "isReviewing (startReview now s)"
  "\<not> isFlipped (startReview now s)"
  "reviewQueue (startReview now s) = sort_key nextReview (filter (\<lambda>c. nextReview c \<le> now) (cards s))"
  by (simp_all add: startReview_def)

lemma onFlip_fields:
  "cards (onFlip s) = cards s"
  "localStorage (onFlip s) = localStorage s"
  "isGenerating (onFlip s) = isGenerating s"
  "currentCardIndex (onFlip s) = currentCardIndex s"
  "isReviewing (onFlip s) = isReviewing s"
  "reviewQueue (onFlip s) = reviewQueue s"
  "isFlipped (onFlip s) = (\<not> isFlipped s)"
  by (simp_all add: onFlip_def)

lemma quit_fields:
  "cards (quit s) = cards s"
  "localStorage (quit s) = localStorage s"
  "isGenerating (quit s) = isGenerating s"
  "currentCardIndex (quit s) = currentCardIndex s"
  "\<not> isReviewing (quit s)"
  "reviewQueue (quit s) = reviewQueue s"
  "isFlipped (quit s) = isFlipped s"
  by (simp_all add: quit_def)

text \<open>
  One card answered: the answer is revealed, then the outcome is reported.
\<close>

lemma answer_one:
  assumes "currentCardIndex s < length (reviewQueue s)"
  shows "\<exists>s'. handleReviewResult now success (onFlip s) = Inr s'
    \<and> cards s' = map (updateCard (reviewQueue s ! currentCardIndex s)
                      (fst (scheduler now (box (reviewQueue s ! currentCardIndex s)) success))
                      (snd (scheduler now (box (reviewQueue s ! currentCardIndex s)) success)))
                   (cards s)
    \<and> localStorage s' = cards s' # localStorage s
    \<and> reviewQueue s' = reviewQueue s
    \<and> isGenerating s' = isGenerating s
    \<and> (if currentCardIndex s + 1 < length (reviewQueue s)
        then isReviewing s' = isReviewing s \<and> currentCardIndex s' = currentCardIndex s + 1
             \<and> \<not> isFlipped s'
        else \<not> isReviewing s' \<and> currentCardIndex s' = currentCardIndex s)"
proof -
  from assms have "currentCardIndex (onFlip s) < length (reviewQueue (onFlip s))"
    by (simp add: onFlip_fields)
  from handleReviewResult_in_range [OF this, of now success] show ?thesis
    by (auto simp add: onFlip_fields split: if_splits)
qed

lemma answer_cards_run:
  assumes "currentCardIndex s + length outcomes \<le> length (reviewQueue s)"
    and "isReviewing s"
  shows "\<exists>s'. answer_cards outcomes s = Inr s'
    \<and> length (localStorage s') = length (localStorage s) + length outcomes
    \<and> reviewQueue s' = reviewQueue s
    \<and> isGenerating s' = isGenerating s
    \<and> map id_card (cards s') = map id_card (cards s)
    \<and> (currentCardIndex s + length outcomes < length (reviewQueue s) \<longrightarrow>
          isReviewing s' \<and> currentCardIndex s' = currentCardIndex s + length outcomes
          \<and> (outcomes \<noteq> [] \<longrightarrow> \<not> isFlipped s'))
    \<and> (currentCardIndex s + length outcomes = length (reviewQueue s) \<and> outcomes \<noteq> [] \<longrightarrow>
          \<not> isReviewing s')"
  using assms
proof (induction outcomes arbitrary: s)
  case Nil
  then show ?case by simp
next
  case (Cons x outcomes)
  obtain now success where x: "x = (now, success)" by (cases x)
  from Cons.prems have inq: "currentCardIndex s < length (reviewQueue s)" by simp
  from answer_one [OF inq, of now success] obtain s1 where
    step: "handleReviewResult now success (onFlip s) = Inr s1" and
    cs: "cards s1 = map (updateCard (reviewQueue s ! currentCardIndex s)
                      (fst (scheduler now (box (reviewQueue s ! currentCardIndex s)) success))
                      (snd (scheduler now (box (reviewQueue s ! currentCardIndex s)) success)))
                   (cards s)" and
    ls: "localStorage s1 = cards s1 # localStorage s" and
    q: "reviewQueue s1 = reviewQueue s" and
    g: "isGenerating s1 = isGenerating s" and
    nxt: "if currentCardIndex s + 1 < length (reviewQueue s)
        then isReviewing s1 = isReviewing s \<and> currentCardIndex s1 = currentCardIndex s + 1
             \<and> \<not> isFlipped s1
        else \<not> isReviewing s1 \<and> currentCardIndex s1 = currentCardIndex s"
    by blast
  have ids: "map id_card (cards s1) = map id_card (cards s)"
    by (simp add: cs updateCard_fields comp_def)
  have run: "answer_cards (x # outcomes) s = answer_cards outcomes s1"
    by (simp add: x step)
  show ?case
  proof (cases "currentCardIndex s + 1 < length (reviewQueue s)")
    case True
    with nxt Cons.prems have s1: "isReviewing s1" "currentCardIndex s1 = currentCardIndex s + 1"
      "\<not> isFlipped s1"
      by simp_all
    from Cons.prems have "currentCardIndex s1 + length outcomes \<le> length (reviewQueue s1)"
      by (simp add: s1 q)
    from Cons.IH [OF this s1(1)] obtain s' where
      r: "answer_cards outcomes s1 = Inr s'" and
      l: "length (localStorage s') = length (localStorage s1) + length outcomes" and
      q': "reviewQueue s' = reviewQueue s1" and
      g': "isGenerating s' = isGenerating s1" and
      i': "map id_card (cards s') = map id_card (cards s1)" and
      a': "currentCardIndex s1 + length outcomes < length (reviewQueue s1) \<longrightarrow>
          isReviewing s' \<and> currentCardIndex s' = currentCardIndex s1 + length outcomes
          \<and> (outcomes \<noteq> [] \<longrightarrow> \<not> isFlipped s')" and
      e': "currentCardIndex s1 + length outcomes = length (reviewQueue s1) \<and> outcomes \<noteq> [] \<longrightarrow>
          \<not> isReviewing s'"
      by blast
    have flipped: "currentCardIndex s1 + length outcomes < length (reviewQueue s1) \<longrightarrow>
        \<not> isFlipped s'"
    proof (cases "outcomes = []")
      case True
      with r have "s' = s1" by simp
      with s1 show ?thesis by simp
    next
      case False
      with a' show ?thesis by simp
    qed
    have ended: "currentCardIndex s1 + length outcomes = length (reviewQueue s1) \<longrightarrow>
        \<not> isReviewing s'"
    proof (cases "outcomes = []")
      case True
      with s1 \<open>currentCardIndex s + 1 < length (reviewQueue s)\<close> q show ?thesis by simp
    next
      case False
      with e' show ?thesis by simp
    qed
    from r l q' g' i' a' flipped ended show ?thesis
      unfolding run by (simp add: ls q g ids s1)
  next
    case False
    with Cons.prems have last: "currentCardIndex s + 1 = length (reviewQueue s)"
      by simp
    have "currentCardIndex s + (length outcomes + 1) \<le> length (reviewQueue s)"
      using Cons.prems(1) by simp
    with last have "length outcomes = 0" by arith
    then have empty: "outcomes = []" by simp
    from nxt False have "\<not> isReviewing s1" by simp
    with last show ?thesis
      unfolding run by (simp add: empty ls q g ids)
  qed
qed

lemma answer_cards_single:
  "answer_cards [x] s = handleReviewResult (fst x) (snd x) (onFlip s)"
  by (cases x) (simp split: sum.splits)

text \<open>
  The session after \<open>k\<close> answered cards, from the state \<^verbatim>\<open>startReview\<close> leaves.
\<close>

lemma session_after:
  assumes "\<not> isGenerating s0" and "k \<le> length (reviewQueue (startReview t0 s0))"
    and "length outcomes = k"
  shows "\<exists>sk. answer_cards outcomes (startReview t0 s0) = Inr sk
    \<and> length (localStorage sk) = length (localStorage s0) + k
    \<and> reviewQueue sk = reviewQueue (startReview t0 s0)
    \<and> map id_card (cards sk) = map id_card (cards s0)
    \<and> \<not> isGenerating sk
    \<and> (k < length (reviewQueue (startReview t0 s0)) \<longrightarrow>
          isReviewing sk \<and> render sk = Review \<and> currentCardIndex sk = k \<and> \<not> isFlipped sk)
    \<and> (k = length (reviewQueue (startReview t0 s0)) \<and> 1 \<le> k \<longrightarrow>
          render sk = Dashboard \<and> \<not> isReviewing sk)"
proof -
  let ?s1 = "startReview t0 s0"
  have "currentCardIndex ?s1 + length outcomes \<le> length (reviewQueue ?s1)"
    using assms by (simp add: startReview_fields(4))
  from answer_cards_run [OF this startReview_fields(5)] obtain sk where
    r: "answer_cards outcomes ?s1 = Inr sk" and
    l: "length (localStorage sk) = length (localStorage ?s1) + length outcomes" and
    q: "reviewQueue sk = reviewQueue ?s1" and
    g: "isGenerating sk = isGenerating ?s1" and
    i: "map id_card (cards sk) = map id_card (cards ?s1)" and
    a: "currentCardIndex ?s1 + length outcomes < length (reviewQueue ?s1) \<longrightarrow>
          isReviewing sk \<and> currentCardIndex sk = currentCardIndex ?s1 + length outcomes
          \<and> (outcomes \<noteq> [] \<longrightarrow> \<not> isFlipped sk)" and
    e: "currentCardIndex ?s1 + length outcomes = length (reviewQueue ?s1) \<and> outcomes \<noteq> [] \<longrightarrow>
          \<not> isReviewing sk"
    by blast
  have idle: "\<not> isGenerating sk" using assms(1) by (simp add: g startReview_fields(3))
  have active: "isReviewing sk \<and> render sk = Review \<and> currentCardIndex sk = k \<and> \<not> isFlipped sk"
    if less: "k < length (reviewQueue ?s1)"
  proof -
    from a less assms(3) have b: "isReviewing sk" "currentCardIndex sk = k"
      "outcomes \<noteq> [] \<longrightarrow> \<not> isFlipped sk"
      by (simp_all add: startReview_fields(4))
    have "\<not> isFlipped sk"
    proof (cases "outcomes = []")
      case True
      with r have "sk = ?s1" by simp
      then show ?thesis by (simp add: startReview_fields(6))
    next
      case False
      with b show ?thesis by simp
    qed
    moreover from less have "0 < length (reviewQueue ?s1)" by arith
    then have "0 < length (reviewQueue sk)" by (simp only: q)
    with b idle have "render sk = Review" by (simp add: render_def)
    ultimately show ?thesis using b by simp
  qed
  have ended: "render sk = Dashboard \<and> \<not> isReviewing sk"
    if "k = length (reviewQueue ?s1) \<and> 1 \<le> k"
  proof -
    from that assms(3) have "outcomes \<noteq> []" by auto
    with e that assms(3) have "\<not> isReviewing sk" by (simp add: startReview_fields(4))
    with idle show ?thesis by (simp add: render_def)
  qed
  from r l q i idle active ended show ?thesis
    by (simp add: assms(3) startReview_fields(1,2))
qed

text \<open>
  One card answered in a deck with unique ids that holds the current card's id: the
  deck that is saved is the old deck with the card of that id rewritten.
\<close>

lemma answer_one_target:
  assumes "currentCardIndex s < length (reviewQueue s)"
    and "distinct (map id_card (cards s))"
    and "id_card (reviewQueue s ! currentCardIndex s) \<in> set (map id_card (cards s))"
  shows "\<exists>s' j. handleReviewResult now success (onFlip s) = Inr s'
    \<and> j < length (cards s)
    \<and> id_card (cards s ! j) = id_card (reviewQueue s ! currentCardIndex s)
    \<and> cards s' = (cards s)[j := (cards s ! j)
         \<lparr>box := fst (scheduler now (box (reviewQueue s ! currentCardIndex s)) success),
          nextReview := snd (scheduler now (box (reviewQueue s ! currentCardIndex s)) success)\<rparr>]
    \<and> localStorage s' = cards s' # localStorage s"
proof -
  let ?cur = "reviewQueue s ! currentCardIndex s"
  let ?nb = "fst (scheduler now (box ?cur) success)"
  let ?nr = "snd (scheduler now (box ?cur) success)"
  from answer_one [OF assms(1), of now success] obtain s' where
    r: "handleReviewResult now success (onFlip s) = Inr s'" and
    cs: "cards s' = map (updateCard ?cur ?nb ?nr) (cards s)" and
    ls: "localStorage s' = cards s' # localStorage s"
    by blast
  from assms(3) obtain j where j: "j < length (cards s)"
    and same: "id_card (cards s ! j) = id_card ?cur"
    by (auto simp add: in_set_conv_nth)
  have "cards s' = (cards s)[j := (cards s ! j)\<lparr>box := ?nb, nextReview := ?nr\<rparr>]"
    unfolding cs using assms(2) j same by (rule map_updateCard_one)
  with r j same ls show ?thesis by blast
qed

text \<open>
  C6. An outcome reported at cursor \<open>i\<close> of a queue of length \<open>n\<close> is saved once and moves
  the session to cursor \<open>i + 1\<close> with the answer hidden when \<open>i + 1 < n\<close>, and ends the
  session when \<open>i\<close> is the last index. So a session started on a deck with unique ids
  whose queue has \<open>n \<ge> 1\<close> cards, with every card answered, is still in the review view
  at card \<open>k\<close> after \<open>k < n\<close> outcomes and is back on the dashboard after exactly \<open>n\<close>;
  after \<open>k\<close> outcomes \<open>k\<close> values have been written to local storage. The \<open>k\<close>-th
  outcome writes the deck in which exactly the card with the id of the \<open>k\<close>-th card of
  the queue is rewritten, to the scheduler's box and next review for that card, and the
  ids of the queue are pairwise distinct, so the \<open>n\<close> writes are for \<open>n\<close> distinct ids.
\<close>

theorem C6_session_reaches_end:
  assumes "distinct (map id_card (cards s0))"
    and "\<not> isGenerating s0"
    and "n = length (reviewQueue (startReview t0 s0))"
    and "1 \<le> n"
    and "length outcomes = n"
  shows "(\<forall>s t b. currentCardIndex s < length (reviewQueue s) \<longrightarrow>
          (\<exists>s'. handleReviewResult t b s = Inr s'
             \<and> length (localStorage s') = length (localStorage s) + 1
             \<and> (if currentCardIndex s + 1 < length (reviewQueue s)
                then isReviewing s' = isReviewing s
                     \<and> currentCardIndex s' = currentCardIndex s + 1 \<and> \<not> isFlipped s'
                else \<not> isReviewing s')))
    \<and> (\<forall>k. k \<le> n \<longrightarrow>
          (\<exists>sk. answer_cards (take k outcomes) (startReview t0 s0) = Inr sk
             \<and> length (localStorage sk) = length (localStorage s0) + k
             \<and> (k < n \<longrightarrow> render sk = Review \<and> currentCardIndex sk = k \<and> \<not> isFlipped sk)
             \<and> (k = n \<longrightarrow> render sk = Dashboard \<and> \<not> isReviewing sk)))
    \<and> distinct (map id_card (reviewQueue (startReview t0 s0)))
    \<and> (\<forall>k k'. k < n \<and> k' < n \<and> k \<noteq> k' \<longrightarrow>
          id_card (reviewQueue (startReview t0 s0) ! k)
            \<noteq> id_card (reviewQueue (startReview t0 s0) ! k'))
    \<and> (\<forall>k. k < n \<longrightarrow>
          (\<exists>sk sk' j. answer_cards (take k outcomes) (startReview t0 s0) = Inr sk
             \<and> handleReviewResult (fst (outcomes ! k)) (snd (outcomes ! k)) (onFlip sk) = Inr sk'
             \<and> answer_cards (take (Suc k) outcomes) (startReview t0 s0) = Inr sk'
             \<and> j < length (cards sk)
             \<and> id_card (cards sk ! j) = id_card (reviewQueue (startReview t0 s0) ! k)
             \<and> cards sk' = (cards sk)[j := (cards sk ! j)
                  \<lparr>box := fst (scheduler (fst (outcomes ! k))
                            (box (reviewQueue (startReview t0 s0) ! k)) (snd (outcomes ! k))),
                   nextReview := snd (scheduler (fst (outcomes ! k))
                            (box (reviewQueue (startReview t0 s0) ! k)) (snd (outcomes ! k)))\<rparr>]
             \<and> id_card (cards sk' ! j) = id_card (reviewQueue (startReview t0 s0) ! k)
             \<and> box (cards sk' ! j) = fst (scheduler (fst (outcomes ! k))
                            (box (reviewQueue (startReview t0 s0) ! k)) (snd (outcomes ! k)))
             \<and> nextReview (cards sk' ! j) = snd (scheduler (fst (outcomes ! k))
                            (box (reviewQueue (startReview t0 s0) ! k)) (snd (outcomes ! k)))
             \<and> localStorage sk' = cards sk' # localStorage sk))"
proof (intro conjI allI impI)
  fix s :: manager_state and t b
  assume "currentCardIndex s < length (reviewQueue s)"
  from handleReviewResult_in_range [OF this, of t b]
  show "\<exists>s'. handleReviewResult t b s = Inr s'
             \<and> length (localStorage s') = length (localStorage s) + 1
             \<and> (if currentCardIndex s + 1 < length (reviewQueue s)
                then isReviewing s' = isReviewing s
                     \<and> currentCardIndex s' = currentCardIndex s + 1 \<and> \<not> isFlipped s'
                else \<not> isReviewing s')"
    by (auto split: if_splits)
next
  fix k
  assume k: "k \<le> n"
  then have "k \<le> length (reviewQueue (startReview t0 s0))" and "length (take k outcomes) = k"
    using assms(3,5) by simp_all
  from session_after [OF assms(2) this] k assms(3,4)
  show "\<exists>sk. answer_cards (take k outcomes) (startReview t0 s0) = Inr sk
             \<and> length (localStorage sk) = length (localStorage s0) + k
             \<and> (k < n \<longrightarrow> render sk = Review \<and> currentCardIndex sk = k \<and> \<not> isFlipped sk)
             \<and> (k = n \<longrightarrow> render sk = Dashboard \<and> \<not> isReviewing sk)"
    by auto
next
  show d: "distinct (map id_card (reviewQueue (startReview t0 s0)))"
    using assms(1) by (simp add: startReview_fields(7) distinct_ids_due)
  fix k k'
  assume "k < n \<and> k' < n \<and> k \<noteq> k'"
  then have kk: "k < length (reviewQueue (startReview t0 s0))"
    "k' < length (reviewQueue (startReview t0 s0))" "k' \<noteq> k"
    using assms(3) by simp_all
  from distinct_key_index [OF d kk(1) kk(2)] kk(3)
  show "id_card (reviewQueue (startReview t0 s0) ! k)
            \<noteq> id_card (reviewQueue (startReview t0 s0) ! k')"
    by auto
next
  fix k
  assume k: "k < n"
  let ?s1 = "startReview t0 s0"
  let ?t = "fst (outcomes ! k)"
  let ?b = "snd (outcomes ! k)"
  let ?nb = "fst (scheduler ?t (box (reviewQueue ?s1 ! k)) ?b)"
  let ?nr = "snd (scheduler ?t (box (reviewQueue ?s1 ! k)) ?b)"
  from k have "k \<le> length (reviewQueue ?s1)" and "length (take k outcomes) = k"
    using assms(3,5) by simp_all
  from session_after [OF assms(2) this] k assms(3) obtain sk where
    r: "answer_cards (take k outcomes) ?s1 = Inr sk" and
    q: "reviewQueue sk = reviewQueue ?s1" and
    ids: "map id_card (cards sk) = map id_card (cards s0)" and
    i: "currentCardIndex sk = k"
    by auto
  from k assms(3) have inq: "currentCardIndex sk < length (reviewQueue sk)" by (simp add: q i)
  have uniq: "distinct (map id_card (cards sk))" using assms(1) by (simp only: ids)
  have "reviewQueue ?s1 ! k \<in> set (reviewQueue ?s1)" using k assms(3) by simp
  then have "reviewQueue ?s1 ! k \<in> set (cards s0)" by (simp add: startReview_fields(7))
  then have "id_card (reviewQueue ?s1 ! k) \<in> set (map id_card (cards s0))" by simp
  then have present: "id_card (reviewQueue sk ! currentCardIndex sk) \<in> set (map id_card (cards sk))"
    by (simp only: ids q i)
  from answer_one_target [OF inq uniq present, of ?t ?b] obtain sk' j where
    step: "handleReviewResult ?t ?b (onFlip sk) = Inr sk'" and
    j: "j < length (cards sk)" and
    same: "id_card (cards sk ! j) = id_card (reviewQueue ?s1 ! k)" and
    upd: "cards sk' = (cards sk)[j := (cards sk ! j)\<lparr>box := ?nb, nextReview := ?nr\<rparr>]" and
    ls: "localStorage sk' = cards sk' # localStorage sk"
    by (auto simp add: q i)
  have at_j: "cards sk' ! j = (cards sk ! j)\<lparr>box := ?nb, nextReview := ?nr\<rparr>"
    using j by (simp add: upd)
  from k assms(5) have "take (Suc k) outcomes = take k outcomes @ [outcomes ! k]"
    by (simp add: take_Suc_conv_app_nth)
  then have run: "answer_cards (take (Suc k) outcomes) ?s1 = Inr sk'"
    by (simp add: answer_cards_append r answer_cards_single step)
  from r step run j same upd ls
  show "\<exists>sk sk' j. answer_cards (take k outcomes) ?s1 = Inr sk
             \<and> handleReviewResult ?t ?b (onFlip sk) = Inr sk'
             \<and> answer_cards (take (Suc k) outcomes) ?s1 = Inr sk'
             \<and> j < length (cards sk)
             \<and> id_card (cards sk ! j) = id_card (reviewQueue ?s1 ! k)
             \<and> cards sk' = (cards sk)[j := (cards sk ! j)\<lparr>box := ?nb, nextReview := ?nr\<rparr>]
             \<and> id_card (cards sk' ! j) = id_card (reviewQueue ?s1 ! k)
             \<and> box (cards sk' ! j) = ?nb
             \<and> nextReview (cards sk' ! j) = ?nr
             \<and> localStorage sk' = cards sk' # localStorage sk"
    by (intro exI [of _ sk] exI [of _ sk'] exI [of _ j]) (simp add: at_j)
qed

theorem C6_session_reaches_end_witness:
  "length (reviewQueue (startReview 10000 example_state)) = 2
   \<and> distinct (map id_card (reviewQueue (startReview 10000 example_state)))
   \<and> (\<exists>s1. answer_cards [(10000, True)] (startReview 10000 example_state) = Inr s1
         \<and> render s1 = Review \<and> currentCardIndex s1 = 1 \<and> \<not> isFlipped s1
         \<and> length (localStorage s1) = 2
         \<and> cards s1 = [example_card ''a'' 0 9000, example_card ''b'' 0 11000,
                        example_card ''c'' 1 86410000]
         \<and> localStorage s1 = [cards s1, example_deck])
   \<and> (\<exists>s2. answer_cards [(10000, True), (10050, False)] (startReview 10000 example_state)
           = Inr s2
         \<and> render s2 = Dashboard \<and> \<not> isReviewing s2 \<and> length (localStorage s2) = 3
         \<and> cards s2 = [example_card ''a'' 0 86410050, example_card ''b'' 0 11000,
                        example_card ''c'' 1 86410000]
         \<and> hd (localStorage s2) = cards s2)"
proof -
  let ?S = "startReview 10000 example_state"
  let ?outcomes = "[(10000, True), (10050, False)] :: (int \<times> bool) list"
  have h1: "distinct (map id_card (cards example_state))"
    by (simp add: example_state_fields example_deck_ids)
  have h2: "\<not> isGenerating example_state" by (simp add: example_state_fields)
  have h3: "2 = length (reviewQueue ?S)" by (simp add: example_session)
  have h4: "(1::nat) \<le> 2" by simp
  have h5: "length ?outcomes = 2" by simp
  note c6 = C6_session_reaches_end [OF h1 h2 h3 h4 h5]
  note progress = c6 [THEN conjunct2, THEN conjunct1, rule_format]
  note target = c6 [THEN conjunct2, THEN conjunct2, THEN conjunct2, THEN conjunct2, rule_format]
  from c6 have d: "distinct (map id_card (reviewQueue ?S))" by blast
  have sch1: "scheduler 10000 0 True = (1, 86410000)"
    by (simp add: scheduler_success daysToAdd_def js_index_def js_or_def intervals_def)
  have sch2: "scheduler 10050 0 False = (0, 86410050)" by (simp add: scheduler_failure)
  have lt0: "(0::nat) < 2" and lt1: "(1::nat) < 2" and le1: "(1::nat) \<le> 2" and le2: "(2::nat) \<le> 2"
    by simp_all
  from target [OF lt0] obtain sk sk' j where
    a0: "answer_cards (take 0 ?outcomes) ?S = Inr sk" and
    a1: "answer_cards (take (Suc 0) ?outcomes) ?S = Inr sk'" and
    j: "j < length (cards sk)" and
    same: "id_card (cards sk ! j) = id_card (reviewQueue ?S ! 0)" and
    upd: "cards sk' = (cards sk)[j := (cards sk ! j)
            \<lparr>box := fst (scheduler (fst (?outcomes ! 0)) (box (reviewQueue ?S ! 0))
                        (snd (?outcomes ! 0))),
             nextReview := snd (scheduler (fst (?outcomes ! 0)) (box (reviewQueue ?S ! 0))
                        (snd (?outcomes ! 0)))\<rparr>]" and
    ls: "localStorage sk' = cards sk' # localStorage sk"
    by blast
  from a0 have sk: "sk = ?S" by simp
  from j have "j = 0 \<or> j = 1 \<or> j = 2"
    by (simp add: sk example_session example_deck_def) arith
  with same have j2: "j = 2"
    by (auto simp add: sk example_session example_deck_def example_card_def)
  have cards1: "cards sk' = [example_card ''a'' 0 9000, example_card ''b'' 0 11000,
                        example_card ''c'' 1 86410000]"
    unfolding upd j2 sk
    by (simp add: example_session example_deck_def example_card_def sch1)
  have store1: "localStorage sk' = [cards sk', example_deck]"
    by (simp add: ls sk example_session)
  from a1 have run1: "answer_cards [(10000, True)] ?S = Inr sk'"
    by (simp del: answer_cards.simps)
  from progress [OF le1] run1 have view1:
    "render sk' = Review \<and> currentCardIndex sk' = 1 \<and> \<not> isFlipped sk'
       \<and> length (localStorage sk') = 2"
    by (auto simp add: example_state_fields simp del: answer_cards.simps)
  from target [OF lt1] obtain tk tk' i where
    b0: "answer_cards (take 1 ?outcomes) ?S = Inr tk" and
    b1: "answer_cards (take (Suc 1) ?outcomes) ?S = Inr tk'" and
    i: "i < length (cards tk)" and
    same': "id_card (cards tk ! i) = id_card (reviewQueue ?S ! 1)" and
    upd': "cards tk' = (cards tk)[i := (cards tk ! i)
            \<lparr>box := fst (scheduler (fst (?outcomes ! 1)) (box (reviewQueue ?S ! 1))
                        (snd (?outcomes ! 1))),
             nextReview := snd (scheduler (fst (?outcomes ! 1)) (box (reviewQueue ?S ! 1))
                        (snd (?outcomes ! 1)))\<rparr>]" and
    ls': "localStorage tk' = cards tk' # localStorage tk"
    by blast
  from b0 run1 have tk: "tk = sk'" by (simp del: answer_cards.simps)
  from i have "i = 0 \<or> i = 1 \<or> i = 2" by (simp add: tk cards1) arith
  with same' have i0: "i = 0"
    by (auto simp add: tk cards1 example_session example_card_def)
  have cards2: "cards tk' = [example_card ''a'' 0 86410050, example_card ''b'' 0 11000,
                        example_card ''c'' 1 86410000]"
    unfolding upd' i0 tk cards1
    by (simp add: example_session example_card_def sch2)
  from b1 have run2: "answer_cards ?outcomes ?S = Inr tk'"
    by (simp del: answer_cards.simps)
  from progress [OF le2] run2 have view2:
    "render tk' = Dashboard \<and> \<not> isReviewing tk' \<and> length (localStorage tk') = 3"
    by (auto simp add: example_state_fields simp del: answer_cards.simps)
  have head2: "hd (localStorage tk') = cards tk'" by (simp add: ls')
  from h3 have len: "length (reviewQueue ?S) = 2" by simp
  from run1 view1 cards1 store1 have first:
    "\<exists>s1. answer_cards [(10000, True)] ?S = Inr s1
         \<and> render s1 = Review \<and> currentCardIndex s1 = 1 \<and> \<not> isFlipped s1
         \<and> length (localStorage s1) = 2
         \<and> cards s1 = [example_card ''a'' 0 9000, example_card ''b'' 0 11000,
                        example_card ''c'' 1 86410000]
         \<and> localStorage s1 = [cards s1, example_deck]"
    by blast
  from run2 view2 cards2 head2 have second:
    "\<exists>s2. answer_cards ?outcomes ?S = Inr s2
         \<and> render s2 = Dashboard \<and> \<not> isReviewing s2 \<and> length (localStorage s2) = 3
         \<and> cards s2 = [example_card ''a'' 0 86410050, example_card ''b'' 0 11000,
                        example_card ''c'' 1 86410000]
         \<and> hd (localStorage s2) = cards s2"
    by blast
  from len d first second show ?thesis by blast
qed

section \<open>Quitting and revealing\<close>

lemma filter_key_unique:
  assumes "distinct (map g xs)" and "x \<in> set xs"
  shows "filter (\<lambda>y. g y = g x) xs = [x]"
  using assms
proof (induction xs)
  case Nil
  then show ?case by simp
next
  case (Cons a xs)
  show ?case
  proof (cases "x = a")
    case True
    from Cons.prems have "g a \<notin> g ` set xs" by simp
    then have "\<forall>y \<in> set xs. g y \<noteq> g a" by (metis imageI)
    then have "filter (\<lambda>y. g y = g a) xs = []" by (simp add: filter_empty_conv)
    with True show ?thesis by simp
  next
    case False
    with Cons.prems have x: "x \<in> set xs" and d: "distinct (map g xs)" by simp_all
    from Cons.prems have "g a \<notin> g ` set xs" by simp
    with x have "g a \<noteq> g x" by (metis imageI)
    with Cons.IH [OF d x] show ?thesis by simp
  qed
qed

lemma filter_id_after_update:
  assumes "distinct (map id_card cs)" and "c \<in> set cs" and "id_card c \<noteq> id_card cur"
  shows "filter (\<lambda>y. id_card y = id_card c) (map (updateCard cur nb nr) cs) = [c]"
proof -
  have "filter (\<lambda>y. id_card y = id_card c) (map (updateCard cur nb nr) cs)
      = map (updateCard cur nb nr) (filter (\<lambda>y. id_card y = id_card c) cs)"
    by (simp add: filter_map comp_def updateCard_fields)
  also have "\<dots> = map (updateCard cur nb nr) [c]"
    using assms(1,2) by (simp only: filter_key_unique)
  also have "\<dots> = [c]" using assms(3) by (simp add: updateCard_other)
  finally show ?thesis .
qed

text \<open>
  C7. Quitting only leaves the review view: it runs no scheduler, changes no card and
  writes nothing to local storage; revealing (flipping) a card changes no card and
  writes nothing either. In a session over a deck with unique ids whose queue has two
  cards, after the outcome of the first card and a quit before the outcome of the
  second (whether or not its answer was revealed), the session has ended, exactly one
  value has been written to local storage, and the only card of the deck with the
  second card's id is the second card as it was in the deck before the session, with
  its box and next review.
\<close>

theorem C7_quit_persists_nothing:
  assumes "distinct (map id_card (cards s0))"
    and "length (reviewQueue (startReview t0 s0)) = 2"
  shows "cards (quit s) = cards s \<and> localStorage (quit s) = localStorage s
    \<and> \<not> isReviewing (quit s)
    \<and> (\<not> isGenerating s \<longrightarrow> render (quit s) = Dashboard)
    \<and> cards (onFlip s) = cards s \<and> localStorage (onFlip s) = localStorage s
    \<and> reviewQueue (startReview t0 s0) ! 1 \<in> set (cards s0)
    \<and> (\<exists>s2. handleReviewResult t1 success (onFlip (startReview t0 s0)) = Inr s2
          \<and> isReviewing s2 \<and> currentCardIndex s2 = 1
          \<and> (\<forall>s3. s3 = quit s2 \<or> s3 = quit (onFlip s2) \<longrightarrow>
                \<not> isReviewing s3
                \<and> localStorage s3 = cards s2 # localStorage s0
                \<and> length (localStorage s3) = length (localStorage s0) + 1
                \<and> filter (\<lambda>c. id_card c = id_card (reviewQueue (startReview t0 s0) ! 1))
                      (cards s3)
                    = [reviewQueue (startReview t0 s0) ! 1]))"
proof -
  let ?s1 = "startReview t0 s0"
  let ?q = "reviewQueue ?s1"
  have general: "cards (quit s) = cards s \<and> localStorage (quit s) = localStorage s
    \<and> \<not> isReviewing (quit s)
    \<and> (\<not> isGenerating s \<longrightarrow> render (quit s) = Dashboard)
    \<and> cards (onFlip s) = cards s \<and> localStorage (onFlip s) = localStorage s"
    by (simp add: quit_def onFlip_def render_def)
  have sub: "set ?q \<subseteq> set (cards s0)" by (auto simp add: startReview_fields(7))
  from assms(2) have "?q ! 1 \<in> set ?q" by simp
  with sub have second: "?q ! 1 \<in> set (cards s0)" by blast
  have "distinct (map id_card ?q)"
    using assms(1) by (simp add: startReview_fields(7) distinct_ids_due)
  with assms(2) have "map id_card ?q ! 1 \<noteq> map id_card ?q ! 0"
    by (simp add: nth_eq_iff_index_eq del: nth_map)
  with assms(2) have differ: "id_card (?q ! 1) \<noteq> id_card (?q ! 0)" by simp
  have inq: "currentCardIndex ?s1 < length (reviewQueue ?s1)"
    using assms(2) by (simp add: startReview_fields(4))
  from answer_one [OF inq, of t1 success] assms(2) obtain s2 where
    step: "handleReviewResult t1 success (onFlip ?s1) = Inr s2" and
    cs: "cards s2 = map (updateCard (?q ! 0)
                      (fst (scheduler t1 (box (?q ! 0)) success))
                      (snd (scheduler t1 (box (?q ! 0)) success)))
                   (cards s0)" and
    ls: "localStorage s2 = cards s2 # localStorage s0" and
    active: "isReviewing s2" "currentCardIndex s2 = 1"
    by (auto simp add: startReview_fields)
  have kept: "filter (\<lambda>c. id_card c = id_card (?q ! 1)) (cards s2) = [?q ! 1]"
    unfolding cs using assms(1) second differ by (rule filter_id_after_update)
  have "\<forall>s3. s3 = quit s2 \<or> s3 = quit (onFlip s2) \<longrightarrow>
                \<not> isReviewing s3
                \<and> localStorage s3 = cards s2 # localStorage s0
                \<and> length (localStorage s3) = length (localStorage s0) + 1
                \<and> filter (\<lambda>c. id_card c = id_card (?q ! 1)) (cards s3) = [?q ! 1]"
    using kept ls by (auto simp add: quit_fields onFlip_fields)
  with general second step active show ?thesis by blast
qed

theorem C7_quit_persists_nothing_witness:
  "length (reviewQueue (startReview 10000 example_state)) = 2
   \<and> reviewQueue (startReview 10000 example_state) ! 1 = example_card ''a'' 0 9000
   \<and> (\<exists>s2. handleReviewResult 10000 True (onFlip (startReview 10000 example_state)) = Inr s2
         \<and> \<not> isReviewing (quit s2)
         \<and> length (localStorage (quit s2)) = 2
         \<and> filter (\<lambda>c. id_card c = ''a'') (cards (quit s2)) = [example_card ''a'' 0 9000])"
proof -
  have h1: "distinct (map id_card (cards example_state))"
    by (simp add: example_state_fields example_deck_ids)
  have h2: "length (reviewQueue (startReview 10000 example_state)) = 2"
    by (simp add: example_session)
  have snd_card: "reviewQueue (startReview 10000 example_state) ! 1 = example_card ''a'' 0 9000"
    by (simp add: example_session)
  from C7_quit_persists_nothing [OF h1 h2, of example_state 10000 True] obtain s2 where
    step: "handleReviewResult 10000 True (onFlip (startReview 10000 example_state)) = Inr s2" and
    after: "\<forall>s3. s3 = quit s2 \<or> s3 = quit (onFlip s2) \<longrightarrow>
                \<not> isReviewing s3
                \<and> localStorage s3 = cards s2 # localStorage example_state
                \<and> length (localStorage s3) = length (localStorage example_state) + 1
                \<and> filter (\<lambda>c. id_card c
                      = id_card (reviewQueue (startReview 10000 example_state) ! 1)) (cards s3)
                    = [reviewQueue (startReview 10000 example_state) ! 1]"
    by blast
  from after [rule_format, of "quit s2"] have
    "\<not> isReviewing (quit s2)
     \<and> length (localStorage (quit s2)) = length (localStorage example_state) + 1
     \<and> filter (\<lambda>c. id_card c
           = id_card (reviewQueue (startReview 10000 example_state) ! 1)) (cards (quit s2))
         = [reviewQueue (startReview 10000 example_state) ! 1]"
    by blast
  then have
    "\<not> isReviewing (quit s2) \<and> length (localStorage (quit s2)) = 2
     \<and> filter (\<lambda>c. id_card c = ''a'') (cards (quit s2)) = [example_card ''a'' 0 9000]"
    unfolding snd_card by (simp add: example_state_fields example_card_def)
  with h2 snd_card step show ?thesis by blast
qed

section \<open>Boxes stay in range\<close>

lemma scheduler_box_range:
  assumes "0 \<le> b" and "b \<le> 6"
  shows "0 \<le> fst (scheduler now b success)" and "fst (scheduler now b success) \<le> 6"
  using assms by (cases success; simp add: scheduler_success scheduler_failure)+

lemma seed_boxes: "list_all (\<lambda>c. box c = 0) (seed now)"
  by (simp add: seed_def)

lemma newCards_boxes: "list_all (\<lambda>c. box c = 0) (newCards now random_id newCardsData)"
  by (simp add: newCards_def list_all_iff split_def)

lemma zero_in_range:
  assumes "list_all (\<lambda>c. box c = 0) cs"
  shows "list_all box_in_range cs"
  using assms by (simp add: list_all_iff box_in_range_def)

lemma updateCard_in_range:
  assumes "box_in_range cur" and "box_in_range c"
  shows "box_in_range (updateCard cur (fst (scheduler now (box cur) success))
                         (snd (scheduler now (box cur) success)) c)"
proof (cases "id_card c = id_card cur")
  case True
  from assms(1) have "0 \<le> box cur" "box cur \<le> 6" by (simp_all add: box_in_range_def)
  from scheduler_box_range [OF this, of now success] True show ?thesis
    by (simp add: updateCard_def box_in_range_def)
next
  case False
  with assms(2) show ?thesis by (simp add: updateCard_def)
qed

lemma mount_in_range:
  assumes "boxes_in_range s"
  shows "boxes_in_range (mount now s)"
proof (cases "localStorage s")
  case Nil
  with assms zero_in_range [OF seed_boxes, of now] show ?thesis
    by (simp add: mount_def boxes_in_range_def)
next
  case (Cons savedCards rest)
  with assms show ?thesis by (simp add: mount_def boxes_in_range_def)
qed

lemma handleGenerate_in_range:
  assumes "boxes_in_range s"
  shows "boxes_in_range (handleGenerate now random_id response s)"
proof (cases response)
  case None
  with assms show ?thesis by (simp add: handleGenerate_def boxes_in_range_def)
next
  case (Some newCardsData)
  from zero_in_range [OF newCards_boxes, of now random_id newCardsData] assms Some show ?thesis
    by (simp add: handleGenerate_def boxes_in_range_def saveCards_def)
qed

lemma startReview_in_range:
  assumes "boxes_in_range s"
  shows "boxes_in_range (startReview now s)"
  using assms by (simp add: startReview_def boxes_in_range_def list_all_iff)

lemma onFlip_in_range:
  assumes "boxes_in_range s"
  shows "boxes_in_range (onFlip s)"
  using assms by (simp add: onFlip_def boxes_in_range_def)

lemma quit_in_range:
  assumes "boxes_in_range s"
  shows "boxes_in_range (quit s)"
  using assms by (simp add: quit_def boxes_in_range_def)

lemma handleReviewResult_in_range_boxes:
  assumes "boxes_in_range s" and "handleReviewResult now success s = Inr s'"
  shows "boxes_in_range s'"
proof (cases "currentCardIndex s < length (reviewQueue s)")
  case True
  let ?cur = "reviewQueue s ! currentCardIndex s"
  from handleReviewResult_in_range [OF True, of now success] assms(2) have
    cs: "cards s' = map (updateCard ?cur (fst (scheduler now (box ?cur) success))
                      (snd (scheduler now (box ?cur) success))) (cards s)" and
    ls: "localStorage s' = cards s' # localStorage s" and
    q: "reviewQueue s' = reviewQueue s"
    by auto
  from assms(1) have old: "list_all box_in_range (cards s)" "list_all box_in_range (reviewQueue s)"
    "list_all (list_all box_in_range) (localStorage s)"
    by (simp_all add: boxes_in_range_def)
  from old(2) True have cur: "box_in_range ?cur" by (simp add: list_all_length)
  have "list_all box_in_range (cards s')"
    unfolding cs using old(1) cur by (simp add: list_all_iff updateCard_in_range)
  with old show ?thesis by (simp add: boxes_in_range_def ls q)
next
  case False
  then have "handleReviewResult now success s = Inl TypeError"
    by (simp add: handleReviewResult_out_of_range)
  with assms(2) show ?thesis by simp
qed

lemma answer_cards_in_range:
  assumes "boxes_in_range s" and "answer_cards outcomes s = Inr s'"
  shows "boxes_in_range s'"
  using assms
proof (induction outcomes arbitrary: s)
  case Nil
  then show ?case by simp
next
  case (Cons x outcomes)
  obtain now success where x: "x = (now, success)" by (cases x)
  from Cons.prems(2) obtain s1 where
    step: "handleReviewResult now success (onFlip s) = Inr s1" and
    rest: "answer_cards outcomes s1 = Inr s'"
    by (auto simp add: x split: sum.splits)
  from Cons.prems(1) have "boxes_in_range (onFlip s)" by (rule onFlip_in_range)
  then have "boxes_in_range s1" using step by (rule handleReviewResult_in_range_boxes)
  then show ?case using rest by (rule Cons.IH)
qed

text \<open>
  C9. The box of every card is always in \<open>[0, 6]\<close>. Seeded and generated cards start at
  box 0; for a current box in \<open>[0, 6]\<close> the scheduler's box is in \<open>[0, 6]\<close> again, 0 on
  failure and \<open>min (currentBox + 1) 6\<close> on success; the first state over an empty local
  storage satisfies the invariant, and mounting, generating, starting a review,
  revealing, reporting an outcome, a run of outcomes and quitting all preserve it.
\<close>

theorem C9_box_in_range:
  "list_all (\<lambda>c. box c = 0) (seed now)
   \<and> list_all (\<lambda>c. box c = 0) (newCards now random_id newCardsData)
   \<and> (0 \<le> currentBox \<and> currentBox \<le> 6 \<longrightarrow>
        0 \<le> fst (scheduler now currentBox success)
        \<and> fst (scheduler now currentBox success) \<le> 6
        \<and> fst (scheduler now currentBox False) = 0
        \<and> fst (scheduler now currentBox True) = min (currentBox + 1) 6)
   \<and> boxes_in_range (initial [])
   \<and> (boxes_in_range s \<longrightarrow>
        boxes_in_range (mount now s)
        \<and> boxes_in_range (handleGenerate now random_id response s)
        \<and> boxes_in_range (startReview now s)
        \<and> boxes_in_range (onFlip s)
        \<and> boxes_in_range (quit s)
        \<and> (\<forall>s'. handleReviewResult now success s = Inr s' \<longrightarrow> boxes_in_range s')
        \<and> (\<forall>outcomes s'. answer_cards outcomes s = Inr s' \<longrightarrow> boxes_in_range s'))"
proof (intro conjI impI allI)
  show "list_all (\<lambda>c. box c = 0) (seed now)" by (rule seed_boxes)
  show "list_all (\<lambda>c. box c = 0) (newCards now random_id newCardsData)"
    by (rule newCards_boxes)
  show "boxes_in_range (initial [])" by (simp add: initial_def boxes_in_range_def)
next
  assume "0 \<le> currentBox \<and> currentBox \<le> 6"
  then have r: "0 \<le> currentBox" "currentBox \<le> 6" by simp_all
  show "0 \<le> fst (scheduler now currentBox success)" using r by (rule scheduler_box_range)
  show "fst (scheduler now currentBox success) \<le> 6" using r by (rule scheduler_box_range)
  show "fst (scheduler now currentBox False) = 0" by (simp add: scheduler_failure)
  show "fst (scheduler now currentBox True) = min (currentBox + 1) 6"
    by (simp add: scheduler_success)
next
  assume inv: "boxes_in_range s"
  show "boxes_in_range (mount now s)" using inv by (rule mount_in_range)
  show "boxes_in_range (handleGenerate now random_id response s)"
    using inv by (rule handleGenerate_in_range)
  show "boxes_in_range (startReview now s)" using inv by (rule startReview_in_range)
  show "boxes_in_range (onFlip s)" using inv by (rule onFlip_in_range)
  show "boxes_in_range (quit s)" using inv by (rule quit_in_range)
  show "boxes_in_range s'" if "handleReviewResult now success s = Inr s'" for s'
    using inv that by (rule handleReviewResult_in_range_boxes)
  show "boxes_in_range s'" if "answer_cards outcomes s = Inr s'" for outcomes s'
    using inv that by (rule answer_cards_in_range)
qed

theorem C9_box_in_range_witness:
  "boxes_in_range (mount 0 (initial []))
   \<and> boxes_in_range (startReview 5 (mount 0 (initial [])))
   \<and> (\<exists>s'. answer_cards [(5, True), (6, False)] (startReview 5 (mount 0 (initial []))) = Inr s'
         \<and> boxes_in_range s')
   \<and> 0 \<le> fst (scheduler 5 6 True) \<and> fst (scheduler 5 6 True) \<le> 6
   \<and> fst (scheduler 5 3 False) = 0"
proof -
  let ?s0 = "mount 0 (initial [])"
  let ?s1 = "startReview 5 ?s0"
  let ?outcomes = "[(5, True), (6, False)] :: (int \<times> bool) list"
  have a: "boxes_in_range ?s0"
    using C9_box_in_range [where s = "initial []" and now = 0] by blast
  have b: "boxes_in_range ?s1"
    using C9_box_in_range [where s = ?s0 and now = 5] a by blast
  have idle: "\<not> isGenerating ?s0" by (simp add: mount_def initial_def)
  have len: "(2::nat) \<le> length (reviewQueue ?s1)"
    by (simp add: startReview_def mount_def initial_def seed_def)
  have "length ?outcomes = 2" by simp
  from session_after [OF idle len this] obtain s' where
    run: "answer_cards ?outcomes ?s1 = Inr s'"
    by blast
  have c: "boxes_in_range s'"
    using C9_box_in_range [where s = ?s1] b run by blast
  have d: "0 \<le> fst (scheduler 5 6 True) \<and> fst (scheduler 5 6 True) \<le> 6"
    using C9_box_in_range [where currentBox = 6 and now = 5 and success = True] by simp
  have e: "fst (scheduler 5 3 False) = 0"
    using C9_box_in_range [where currentBox = 3 and now = 5] by simp
  from a b run c d e show ?thesis by blast
qed

end
